(* ===== verification/Prelude.thy ===== *)
theory Prelude
  imports Main "HOL-Library.AList"
begin

text \<open>
  Shared vocabulary of the development: Python exceptions as values, computations that
  thread a state and may raise, insertion-ordered dictionaries, and the two interfaces that
  most components are verified against: transition systems with an inductive invariant, and
  attribute stores.
\<close>

section \<open>Exceptions\<close>

text \<open>
  The exception classes that the package raises or catches. \<open>UserExc n\<close> stands for any
  exception raised by code the package calls (an application, an awaitable, a work function).
  \<open>UnicodeError\<close> stands for \<open>UnicodeEncodeError\<close> and \<open>UnicodeDecodeError\<close>,
  which are subclasses of \<open>ValueError\<close>.
\<close>

datatype exn =
    RuntimeError | LookupError | AttributeError | KeyError | IndexError | TypeError
  | ValueError | UnicodeError | InvalidStateError | CancelledError | TimeoutError
  | NotImplementedError | KeyboardInterrupt | Done | UserExc nat

fun is_ValueError :: "exn \<Rightarrow> bool" where
  "is_ValueError ValueError = True"
| "is_ValueError UnicodeError = True"
| "is_ValueError _ = False"

section \<open>Computations that thread a state and may raise\<close>

text \<open>
  An exception does not undo the assignments made before it, so the state is returned in both
  cases. \<open>py_finally\<close> runs its second argument on either outcome and lets an exception of
  the second argument replace the first one, as \<open>try ... finally\<close> does.
\<close>

type_synonym ('s, 'a) py = "'s \<Rightarrow> (exn + 'a) \<times> 's"

named_theorems py_simps \<open>unfolding of the state-and-exception combinators\<close>

definition py_return :: "'a \<Rightarrow> ('s, 'a) py" where
  [py_simps]: "py_return a = (\<lambda>s. (Inr a, s))"

definition py_raise :: "exn \<Rightarrow> ('s, 'a) py" where
  [py_simps]: "py_raise e = (\<lambda>s. (Inl e, s))"

definition py_bind :: "('s, 'a) py \<Rightarrow> ('a \<Rightarrow> ('s, 'b) py) \<Rightarrow> ('s, 'b) py" where
  [py_simps]: "py_bind m k = (\<lambda>s. case m s of (Inl e, s') \<Rightarrow> (Inl e, s') | (Inr a, s') \<Rightarrow> k a s')"

definition py_try :: "('s, 'a) py \<Rightarrow> (exn \<Rightarrow> bool) \<Rightarrow> (exn \<Rightarrow> ('s, 'a) py) \<Rightarrow> ('s, 'a) py" where
  [py_simps]: "py_try m catches h = (\<lambda>s. case m s of
     (Inl e, s') \<Rightarrow> if catches e then h e s' else (Inl e, s')
   | (Inr a, s') \<Rightarrow> (Inr a, s'))"

definition py_finally :: "('s, 'a) py \<Rightarrow> ('s, 'b) py \<Rightarrow> ('s, 'a) py" where
  [py_simps]: "py_finally m f = (\<lambda>s. case m s of (r, s') \<Rightarrow>
     (case f s' of (Inl e, s'') \<Rightarrow> (Inl e, s'') | (Inr _, s'') \<Rightarrow> (r, s'')))"

lemma py_bind_return [simp]: "py_bind m py_return = m"
  by (auto simp: py_simps fun_eq_iff split: prod.splits sum.splits)

lemma py_return_bind [simp]: "py_bind (py_return a) k = k a"
  by (simp add: py_simps)

lemma py_raise_bind [simp]: "py_bind (py_raise e) k = py_raise e"
  by (simp add: py_simps)

lemma py_bind_assoc: "py_bind (py_bind m k) l = py_bind m (\<lambda>a. py_bind (k a) l)"
  by (auto simp: py_simps fun_eq_iff split: prod.splits sum.splits)

lemma py_finally_state:
  "snd (py_finally m f s) = snd (f (snd (m s)))"
  by (auto simp: py_simps split: prod.splits sum.splits)

section \<open>Threads\<close>

type_synonym tid = nat \<comment> \<open>what \<open>threading.get_ident()\<close> and \<open>current_thread()\<close> name\<close>

section \<open>Dictionaries in insertion order\<close>

text \<open>
  A Python dict remembers insertion order: assigning to a present key keeps its place,
  assigning to a new key appends. \<^const>\<open>AList.update\<close> and \<^const>\<open>AList.delete\<close> do exactly
  that on association lists; lookup is \<^const>\<open>map_of\<close>.
\<close>

type_synonym ('k, 'v) dict = "('k \<times> 'v) list"

abbreviation dict_set :: "'k \<Rightarrow> 'v \<Rightarrow> ('k, 'v) dict \<Rightarrow> ('k, 'v) dict" where
  "dict_set \<equiv> AList.update"

abbreviation dict_del :: "'k \<Rightarrow> ('k, 'v) dict \<Rightarrow> ('k, 'v) dict" where
  "dict_del \<equiv> AList.delete"

abbreviation dict_get :: "('k, 'v) dict \<Rightarrow> 'k \<Rightarrow> 'v option" where
  "dict_get \<equiv> map_of"

abbreviation dict_keys :: "('k, 'v) dict \<Rightarrow> 'k list" where
  "dict_keys d \<equiv> List.map fst d"

definition dict_ok :: "('k, 'v) dict \<Rightarrow> bool" where
  "dict_ok d \<longleftrightarrow> distinct (dict_keys d)"

lemma dict_get_set [simp]: "dict_get (dict_set k v d) = (dict_get d)(k \<mapsto> v)"
  by (simp add: update_conv')

lemma dict_get_del [simp]: "dict_get (dict_del k d) = (dict_get d)(k := None)"
  by (simp add: delete_conv')

lemma dict_keys_iff: "k \<in> fst ` set d \<longleftrightarrow> (\<exists>v. dict_get d k = Some v)"
  by (metis map_of_eq_None_iff not_Some_eq)

lemma dict_ok_Nil [simp]: "dict_ok []"
  by (simp add: dict_ok_def)

lemma dict_ok_set [simp, intro]: "dict_ok d \<Longrightarrow> dict_ok (dict_set k v d)"
  by (simp add: dict_ok_def distinct_update)

lemma dict_ok_del [simp, intro]: "dict_ok d \<Longrightarrow> dict_ok (dict_del k d)"
  by (simp add: dict_ok_def distinct_delete)

lemma dict_set_fresh: "k \<notin> set (dict_keys d) \<Longrightarrow> dict_set k v d = d @ [(k, v)]"
  by (induction d) auto

lemma length_dict_set:
  "length (dict_set k v d) = (if k \<in> set (dict_keys d) then length d else Suc (length d))"
  by (induction d) auto

lemma length_dict_del:
  assumes "dict_ok d" and "k \<in> set (dict_keys d)"
  shows "Suc (length (dict_del k d)) = length d"
  using assms
proof (induction d)
  case (Cons p d)
  then show ?case
    by (cases "fst p = k") (auto simp: dict_ok_def delete_id)
qed simp

lemma dict_del_filter: "dict_del k d = filter (\<lambda>p. fst p \<noteq> k) d"
  by (auto simp: AList.delete_eq intro: filter_cong)

lemma set_dict_del:
  assumes "dict_ok ds" and "(k, v) \<in> set ds"
  shows "set (dict_del k ds) = set ds - {(k, v)}"
  using assms
proof (induction ds)
  case (Cons p ds)
  obtain j w where p: "p = (j, w)" by (cases p)
  show ?case
  proof (cases "j = k")
    case True
    with Cons.prems p have "k \<notin> fst ` set ds" "w = v" by (force simp: dict_ok_def)+
    then have "(k, v) \<notin> set ds" "dict_del k ds = ds" by (force simp: delete_id)+
    with True p \<open>w = v\<close> show ?thesis by simp
  next
    case False
    with Cons p show ?thesis by (auto simp: dict_ok_def)
  qed
qed simp

lemma find_SomeD: "find P xs = Some x \<Longrightarrow> x \<in> set xs \<and> P x"
  by (induction xs) (auto split: if_splits)

section \<open>Reachable states and inductive invariants\<close>

inductive reach :: "('s \<Rightarrow> bool) \<Rightarrow> ('s \<Rightarrow> 's \<Rightarrow> bool) \<Rightarrow> 's \<Rightarrow> bool"
  for init step where
  reach_init: "init s \<Longrightarrow> reach init step s"
| reach_step: "reach init step s \<Longrightarrow> step s t \<Longrightarrow> reach init step t"

lemma reach_star: "reach init step s \<Longrightarrow> step\<^sup>*\<^sup>* s t \<Longrightarrow> reach init step t"
  by (rotate_tac, induction rule: rtranclp_induct) (blast intro: reach_step)+

text \<open>
  A component whose steps interleave promises its client two things: an inductive invariant,
  and predicates that stay true once they hold. The client works with reachable states only.
\<close>

locale stable_predicate =
  fixes step :: "'s \<Rightarrow> 's \<Rightarrow> bool" and holds :: "'s \<Rightarrow> bool"
  assumes stable: "holds s \<Longrightarrow> step s t \<Longrightarrow> holds t"
begin

lemma stays: "step\<^sup>*\<^sup>* s t \<Longrightarrow> holds s \<Longrightarrow> holds t"
  by (induction rule: rtranclp_induct) (auto intro: stable)

end

locale invariant_system = stable_predicate step inv
  for step :: "'s \<Rightarrow> 's \<Rightarrow> bool" and inv :: "'s \<Rightarrow> bool" +
  fixes init :: "'s \<Rightarrow> bool"
  assumes inv_init: "init s \<Longrightarrow> inv s"
begin

lemma invariant: "reach init step s \<Longrightarrow> inv s"
  by (induction rule: reach.induct) (auto intro: inv_init stable)

end

section \<open>Attribute stores\<close>

text \<open>
  What a client of a namespace object relies on: reading after an assignment, frame
  conditions for the other names, and a deletion that raises exactly when the name is absent.
  \<open>look s k\<close> is the value an attribute read returns (\<open>None\<close>: it raises
  \<open>AttributeError\<close>), \<open>put\<close> an assignment and \<open>del\<close> a deletion. \<open>free k\<close> says
  that \<open>k\<close> is a name the object does not use for itself.
\<close>

locale attribute_store =
  fixes free :: "string \<Rightarrow> bool"
    and look :: "'s \<Rightarrow> string \<Rightarrow> 'v option"
    and put :: "string \<Rightarrow> 'v \<Rightarrow> 's \<Rightarrow> 's"
    and del :: "string \<Rightarrow> 's \<Rightarrow> exn + 's"
  assumes look_put: "free k \<Longrightarrow> look (put k v s) = (look s)(k \<mapsto> v)"
    and del_absent: "free k \<Longrightarrow> look s k = None \<Longrightarrow> del k s = Inl AttributeError"
    and del_present: "free k \<Longrightarrow> look s k = Some v \<Longrightarrow>
          \<exists>s'. del k s = Inr s' \<and> look s' = (look s)(k := None)"
begin

lemma look_put_same: "free k \<Longrightarrow> look (put k v s) k = Some v"
  by (simp add: look_put)

lemma look_put_other: "free k \<Longrightarrow> j \<noteq> k \<Longrightarrow> look (put k v s) j = look s j"
  by (simp add: look_put)

lemma put_put: "free k \<Longrightarrow> look (put k w (put k v s)) = look (put k w s)"
  by (simp add: look_put)

text \<open>Saving an attribute, overwriting it and writing the saved value back restores every read.\<close>

lemma save_restore:
  assumes "free k" and "look s k = Some v"
  shows "look (put k v (put k w s)) = look s"
  using assms by (auto simp: look_put fun_eq_iff)

lemma del_put:
  assumes "free k"
  shows "\<exists>s'. del k (put k v s) = Inr s' \<and> look s' = (look s)(k := None)"
  using del_present [OF assms look_put_same [OF assms], of v s] assms by (auto simp: look_put)

lemma del_twice:
  assumes "free k" and "del k s = Inr s'"
  shows "del k s' = Inl AttributeError"
proof -
  from assms obtain v where "look s k = Some v"
    using del_absent by (cases "look s k") auto
  with del_present [OF assms(1)] assms(2) have "look s' k = None" by fastforce
  then show ?thesis by (rule del_absent [OF assms(1)])
qed

end

end
