(* ===== verification/Futures.thy ===== *)
theory Futures
  imports Prelude
begin

text \<open>
  Futures of the standard library's \<open>concurrent.futures\<close>, as far as the package uses
  them: the life cycle of a \<open>Future\<close> and the errors its methods raise.
\<close>

section \<open>State of a future\<close>

datatype fstate = PENDING | RUNNING | CANCELLED | CANCELLED_AND_NOTIFIED | FINISHED

record 'a future =
  fut_state :: fstate
  fut_outcome :: "(exn + 'a) option"

definition new_future :: "'a future" where
  "new_future = \<lparr>fut_state = PENDING, fut_outcome = None\<rparr>"

fun is_cancelled_state :: "fstate \<Rightarrow> bool" where
  "is_cancelled_state CANCELLED = True"
| "is_cancelled_state CANCELLED_AND_NOTIFIED = True"
| "is_cancelled_state _ = False"

definition future_cancelled :: "'a future \<Rightarrow> bool" where
  "future_cancelled f \<longleftrightarrow> is_cancelled_state (fut_state f)"

definition future_done :: "'a future \<Rightarrow> bool" where
  "future_done f \<longleftrightarrow> future_cancelled f \<or> fut_state f = FINISHED"

section \<open>Operations\<close>

text \<open>
  \<open>set_running_or_notify_cancel\<close> returns false for a cancelled future, starts a pending
  one, and raises \<open>RuntimeError\<close> in any other state.
\<close>

definition set_running_or_notify_cancel :: "'a future \<Rightarrow> exn + (bool \<times> 'a future)" where
  "set_running_or_notify_cancel f = (case fut_state f of
     CANCELLED \<Rightarrow> Inr (False, f\<lparr>fut_state := CANCELLED_AND_NOTIFIED\<rparr>)
   | PENDING \<Rightarrow> Inr (True, f\<lparr>fut_state := RUNNING\<rparr>)
   | _ \<Rightarrow> Inl RuntimeError)"

definition set_outcome :: "exn + 'a \<Rightarrow> 'a future \<Rightarrow> exn + 'a future" where
  "set_outcome r f = (if future_done f then Inl InvalidStateError
     else Inr (f\<lparr>fut_state := FINISHED, fut_outcome := Some r\<rparr>))"

definition set_result :: "'a \<Rightarrow> 'a future \<Rightarrow> exn + 'a future" where
  "set_result a = set_outcome (Inr a)"

definition set_exception :: "exn \<Rightarrow> 'a future \<Rightarrow> exn + 'a future" where
  "set_exception e = set_outcome (Inl e)"

definition future_cancel :: "'a future \<Rightarrow> bool \<times> 'a future" where
  "future_cancel f = (case fut_state f of
     RUNNING \<Rightarrow> (False, f)
   | FINISHED \<Rightarrow> (False, f)
   | CANCELLED \<Rightarrow> (True, f)
   | CANCELLED_AND_NOTIFIED \<Rightarrow> (True, f)
   | PENDING \<Rightarrow> (True, f\<lparr>fut_state := CANCELLED\<rparr>))"

text \<open>\<open>result()\<close> of a future that is done; \<open>None\<close>: the call would block.\<close>

definition future_result :: "'a future \<Rightarrow> (exn + 'a) option" where
  "future_result f = (if future_cancelled f then Some (Inl CancelledError)
     else if fut_state f = FINISHED then fut_outcome f else None)"

section \<open>The life cycle only moves forward\<close>

text \<open>
  The states are ordered by the life cycle. Every operation moves a future up in this order,
  which is why "done" and "cancelled" never become false again.
\<close>

fun fstate_rank :: "fstate \<Rightarrow> nat" where
  "fstate_rank PENDING = 0"
| "fstate_rank RUNNING = 1"
| "fstate_rank CANCELLED = 2"
| "fstate_rank CANCELLED_AND_NOTIFIED = 3"
| "fstate_rank FINISHED = 4"

lemma fstate_rank_inj [simp]: "fstate_rank s = fstate_rank t \<longleftrightarrow> s = t"
  by (cases s; cases t) simp_all

instantiation fstate :: linorder
begin

definition less_eq_fstate :: "fstate \<Rightarrow> fstate \<Rightarrow> bool" where
  "less_eq_fstate s t \<longleftrightarrow> fstate_rank s \<le> fstate_rank t"

definition less_fstate :: "fstate \<Rightarrow> fstate \<Rightarrow> bool" where
  "less_fstate s t \<longleftrightarrow> fstate_rank s < fstate_rank t"

instance
  by standard (auto simp: less_eq_fstate_def less_fstate_def)

end

lemmas fstate_order = less_eq_fstate_def less_fstate_def

lemmas future_defs =
  new_future_def future_cancelled_def future_done_def set_running_or_notify_cancel_def
  set_outcome_def set_result_def set_exception_def future_cancel_def future_result_def

lemma future_done_iff: "future_done f \<longleftrightarrow> CANCELLED \<le> fut_state f"
  by (cases "fut_state f") (simp_all add: future_defs fstate_order)

lemma set_running_forward:
  "set_running_or_notify_cancel f = Inr (b, g) \<Longrightarrow> fut_state f \<le> fut_state g"
  by (cases "fut_state f") (auto simp: future_defs fstate_order)

lemma set_outcome_forward: "set_outcome r f = Inr g \<Longrightarrow> fut_state f \<le> fut_state g"
  by (cases "fut_state f") (auto simp: future_defs fstate_order)

lemma future_cancel_forward: "fut_state f \<le> fut_state (snd (future_cancel f))"
  by (cases "fut_state f") (simp_all add: future_defs fstate_order)

lemma future_cancel_cases:
  "fst (future_cancel f) \<longleftrightarrow> future_cancelled (snd (future_cancel f))"
  by (cases "fut_state f") (simp_all add: future_defs)

end
