(* ===== verification/Thread_Executor.thy ===== *)
theory Thread_Executor
  imports Futures
begin

text \<open>
  \<open>asgiref/current_thread_executor.py\<close>: work items, the executor object, the walk of
  \<open>submit\<close> up the stack of executors, and the loop of \<open>run_until_future\<close> for one
  thread. The interleaving of threads is in \<open>Executor_Concurrency\<close>.
\<close>

section \<open>Work items\<close>

text \<open>
  \<open>_WorkItem\<close>: the future and the callable, with its arguments bound. The callable acts on
  a state \<open>'s\<close> (whatever the submitted code reads and writes) and returns or raises.
  \<open>run\<close> threads that state and the item's future; its own outcome is what \<open>run()\<close>
  itself returns or raises.
\<close>

record ('s, 'a) work_item =
  wi_future :: "'a future"
  wi_fn :: "('s, 'a) py"

definition work_item_run :: "('s, 'a) work_item \<Rightarrow> ('a future \<times> 's, unit) py" where
  "work_item_run w = (\<lambda>(f, s). case set_running_or_notify_cancel f of
     Inl e \<Rightarrow> (Inl e, f, s)
   | Inr (False, f') \<Rightarrow> (Inr (), f', s)
   | Inr (True, f') \<Rightarrow> (case wi_fn w s of
       (Inl exc, s') \<Rightarrow> (case set_exception exc f' of
           Inl e \<Rightarrow> (Inl e, f', s')
         | Inr f'' \<Rightarrow> (Inr (), f'', s'))
     | (Inr r, s') \<Rightarrow> (case set_result r f' of
           Inl e \<Rightarrow> (Inl e, f', s')
         | Inr f'' \<Rightarrow> (Inr (), f'', s'))))"

lemma work_item_run_pending:
  assumes "fut_state f = PENDING"
  shows "work_item_run w (f, s) =
    (Inr (), f\<lparr>fut_state := FINISHED, fut_outcome := Some (fst (wi_fn w s))\<rparr>, snd (wi_fn w s))"
  using assms by (auto simp: work_item_run_def future_defs split: prod.splits sum.splits)

lemma work_item_run_cancelled:
  assumes "fut_state f = CANCELLED"
  shows "work_item_run w (f, s) = (Inr (), f\<lparr>fut_state := CANCELLED_AND_NOTIFIED\<rparr>, s)"
  using assms by (simp add: work_item_run_def future_defs)

lemma work_item_run_other:
  assumes "fut_state f \<notin> {PENDING, CANCELLED}"
  shows "work_item_run w (f, s) = (Inl RuntimeError, f, s)"
  using assms by (cases "fut_state f") (simp_all add: work_item_run_def future_defs)

section \<open>The executor object\<close>

type_synonym eid = nat \<comment> \<open>executor objects\<close>

text \<open>
  The fields of \<open>CurrentThreadExecutor\<close>. The condition variable \<open>_work_ready\<close> has no
  field of its own here: its lock makes each \<open>with\<close> block one step, and its waiter is the
  control state of the running thread (see \<open>Executor_Concurrency\<close>). Jobs are of any type.
\<close>

record 'j executor =
  work_thread :: tid
  work_items :: "'j list"
  broken :: bool
  old_executor :: "eid option"

type_synonym 'j store = "eid \<Rightarrow> 'j executor option"

definition new_executor :: "tid \<Rightarrow> eid option \<Rightarrow> 'j executor" where
  "new_executor current_thread old = \<lparr>work_thread = current_thread, work_items = [],
     broken = False, old_executor = old\<rparr>"

text \<open>
  The three critical sections of the class: the \<open>done\<close> callback, one round of the walk in
  \<open>submit\<close>, and one round of the loop in \<open>run_until_future\<close>.
\<close>

definition mark_done :: "'j executor \<Rightarrow> 'j executor" where
  "mark_done x = x\<lparr>broken := True\<rparr>"

definition offer :: "'j \<Rightarrow> 'j executor \<Rightarrow> 'j executor option" where
  "offer j x = (if \<not> broken x then Some (x\<lparr>work_items := work_items x @ [j]\<rparr>) else None)"

datatype 'j round = Wait | Stop | Run 'j

definition next_round :: "'j executor \<Rightarrow> 'j round \<times> 'j executor" where
  "next_round x = (if work_items x = [] \<and> \<not> broken x then (Wait, x)
     else case work_items x of
            [] \<Rightarrow> (Stop, x)
          | j # js \<Rightarrow> (Run j, x\<lparr>work_items := js\<rparr>))"

lemmas executor_defs = new_executor_def mark_done_def offer_def next_round_def

section \<open>Submitting work\<close>

text \<open>
  \<open>submit\<close> first refuses a caller on the executor's own thread, then walks up the stack of
  executors to the closest one that still runs. The outer \<open>option\<close> is \<open>None\<close> when the
  walk does not return or meets a dangling reference; \<open>submit_terminates\<close> below excludes
  both for the stores the program builds.
\<close>

partial_function (option) submit_walk :: "'j store \<Rightarrow> eid \<Rightarrow> 'j \<Rightarrow> (exn + 'j store) option" where
  "submit_walk st e j = (case st e of
     None \<Rightarrow> None
   | Some x \<Rightarrow> (case offer j x of
       Some x' \<Rightarrow> Some (Inr (st(e \<mapsto> x')))
     | None \<Rightarrow> (case old_executor x of
         None \<Rightarrow> Some (Inl RuntimeError)
       | Some p \<Rightarrow> submit_walk st p j)))"

definition submit :: "'j store \<Rightarrow> tid \<Rightarrow> eid \<Rightarrow> 'j \<Rightarrow> (exn + 'j store) option" where
  "submit st current_thread e j = (case st e of
     None \<Rightarrow> None
   | Some x \<Rightarrow> if current_thread = work_thread x then Some (Inl RuntimeError)
       else submit_walk st e j)"

text \<open>The stack of executors above \<open>e\<close>, nearest first.\<close>

inductive stack :: "'j store \<Rightarrow> eid \<Rightarrow> eid list \<Rightarrow> bool" for st where
  stack_top: "st e = Some x \<Longrightarrow> old_executor x = None \<Longrightarrow> stack st e [e]"
| stack_below: "st e = Some x \<Longrightarrow> old_executor x = Some p \<Longrightarrow> stack st p es \<Longrightarrow> stack st e (e # es)"

inductive_cases stack_NilE: "stack st e []"
inductive_cases stack_ConsE: "stack st e (d # es)"

definition live :: "'j store \<Rightarrow> eid \<Rightarrow> bool" where
  "live st e = (case st e of None \<Rightarrow> False | Some x \<Rightarrow> \<not> broken x)"

definition enqueue :: "'j \<Rightarrow> eid \<Rightarrow> 'j store \<Rightarrow> 'j store" where
  "enqueue j e st = (case st e of None \<Rightarrow> st
     | Some x \<Rightarrow> st(e \<mapsto> x\<lparr>work_items := work_items x @ [j]\<rparr>))"

lemma live_Some [simp]: "st e = Some x \<Longrightarrow> live st e \<longleftrightarrow> \<not> broken x"
  by (simp add: live_def)

lemma enqueue_Some [simp]:
  "st e = Some x \<Longrightarrow> enqueue j e st = st(e \<mapsto> x\<lparr>work_items := work_items x @ [j]\<rparr>)"
  by (simp add: enqueue_def)

lemma submit_walk_stack:
  assumes "stack st e es"
  shows "submit_walk st e j = Some (case find (live st) es of
           None \<Rightarrow> Inl RuntimeError
         | Some d \<Rightarrow> Inr (enqueue j d st))"
  using assms
  by (induction rule: stack.induct)
    (subst submit_walk.simps; simp add: offer_def)+

text \<open>
  An executor is created with a reference to one that exists, so references point to older
  objects and every stack is finite.
\<close>

definition wf_store :: "'j store \<Rightarrow> bool" where
  "wf_store st \<longleftrightarrow> (\<forall>e x p. st e = Some x \<longrightarrow> old_executor x = Some p \<longrightarrow> p < e \<and> st p \<noteq> None)"

lemma wf_storeD: "wf_store st \<Longrightarrow> st e = Some x \<Longrightarrow> old_executor x = Some p \<Longrightarrow> p < e \<and> st p \<noteq> None"
  by (auto simp: wf_store_def)

lemma wf_store_empty [simp]: "wf_store (\<lambda>_. None)"
  by (simp add: wf_store_def)

lemma wf_store_create:
  assumes "wf_store st" and "st e = None" and "\<And>p. old = Some p \<Longrightarrow> p < e \<and> st p \<noteq> None"
  shows "wf_store (st(e \<mapsto> new_executor t old))"
  using assms by (force simp: wf_store_def new_executor_def)

lemma wf_store_update:
  assumes "wf_store st" and "st e = Some x" and "old_executor x' = old_executor x"
  shows "wf_store (st(e \<mapsto> x'))"
  using assms by (force simp: wf_store_def)

lemma wf_store_enqueue: "wf_store st \<Longrightarrow> wf_store (enqueue j e st)"
  by (auto simp: enqueue_def intro: wf_store_update split: option.splits)

lemma stack_exists:
  assumes "wf_store st" and "st e = Some x"
  shows "\<exists>es. stack st e es"
  using assms(2)
proof (induction e arbitrary: x rule: less_induct)
  case (less e)
  show ?case
  proof (cases "old_executor x")
    case None
    with less.prems show ?thesis by (blast intro: stack_top)
  next
    case (Some p)
    from wf_storeD [OF assms(1) less.prems Some] obtain y where "p < e" and "st p = Some y"
      by auto
    then obtain es where "stack st p es" using less.IH by blast
    with less.prems Some show ?thesis by (blast intro: stack_below)
  qed
qed

lemma stack_head: "stack st e es \<Longrightarrow> \<exists>ds. es = e # ds"
  by (induction rule: stack.induct) auto

lemma stack_unique: "stack st e es \<Longrightarrow> stack st e ds \<Longrightarrow> es = ds"
proof (induction arbitrary: ds rule: stack.induct)
  case (stack_top e x)
  from stack_top.prems show ?case by cases (use stack_top.hyps in simp_all)
next
  case (stack_below e x p es)
  from stack_below.prems show ?case
  proof cases
    case stack_top
    with stack_below.hyps show ?thesis by simp
  next
    case (stack_below y q fs)
    with \<open>st e = Some x\<close> \<open>old_executor x = Some p\<close> have "q = p" by simp
    with stack_below stack_below.IH show ?thesis by simp
  qed
qed

lemma stack_present: "stack st e es \<Longrightarrow> set es \<subseteq> dom st"
  by (induction rule: stack.induct) (simp_all add: domI)

section \<open>Running until the future is done\<close>

text \<open>
  What the loop does once no more work can arrive: with \<open>broken\<close> set, each round takes the
  oldest item, and the loop stops when the queue is empty. \<open>exec_items\<close> is the effect of the
  items' \<open>run\<close> on the outside, in the order they are taken.
\<close>

fun drain :: "nat \<Rightarrow> ('j \<Rightarrow> 's \<Rightarrow> 's) \<Rightarrow> 'j executor \<Rightarrow> 's \<Rightarrow> ('j executor \<times> 's) option" where
  "drain 0 run x s = None"
| "drain (Suc fuel) run x s = (case next_round x of
     (Wait, x') \<Rightarrow> None
   | (Stop, x') \<Rightarrow> Some (x', s)
   | (Run j, x') \<Rightarrow> drain fuel run x' (run j s))"

lemma drain_broken:
  assumes "broken x" and "length (work_items x) < fuel"
  shows "drain fuel run x s = Some (x\<lparr>work_items := []\<rparr>, fold run (work_items x) s)"
  using assms
proof (induction fuel arbitrary: x s)
  case (Suc fuel)
  show ?case
  proof (cases "work_items x")
    case Nil
    with Suc.prems show ?thesis by (simp add: next_round_def)
  next
    case (Cons j js)
    with Suc show ?thesis by (simp add: next_round_def)
  qed
qed simp

section \<open>Properties\<close>

text \<open>The outcome of a job always reaches its future. Running a pending item stores what the
  callable returned or raised, and \<open>run()\<close> itself does not raise; an item whose future was
  cancelled is skipped without calling the callable; any other state is a \<open>RuntimeError\<close>.\<close>

theorem work_item_outcome:
  "work_item_run w (f, s) = (case fut_state f of
     PENDING \<Rightarrow> (Inr (), f\<lparr>fut_state := FINISHED, fut_outcome := Some (fst (wi_fn w s))\<rparr>, snd (wi_fn w s))
   | CANCELLED \<Rightarrow> (Inr (), f\<lparr>fut_state := CANCELLED_AND_NOTIFIED\<rparr>, s)
   | _ \<Rightarrow> (Inl RuntimeError, f, s))"
  by (cases "fut_state f")
    (simp_all add: work_item_run_pending work_item_run_cancelled work_item_run_other)

text \<open>Once the awaited future is done, \<open>run_until_future\<close> returns. It runs every queued
  item, oldest first, and stops with an empty queue; one loop round per item and one more are
  enough.\<close>

theorem run_loop_drains:
  assumes "broken x" and "length (work_items x) < fuel"
  shows "drain fuel run x s = Some (x\<lparr>work_items := []\<rparr>, fold run (work_items x) s)"
  using assms by (rule drain_broken)

theorem run_loop_drains_witness:
  "drain 3 (\<lambda>j s. s @ [j]) (mark_done (new_executor 0 None)\<lparr>work_items := [4, 5 :: nat]\<rparr>) [] =
     Some (mark_done (new_executor 0 None), [4, 5])"
  using run_loop_drains [of "mark_done (new_executor 0 None)\<lparr>work_items := [4, 5 :: nat]\<rparr>" 3
      "\<lambda>j s. s @ [j]" "[]"]
  by (simp add: executor_defs)

end
