(* ===== verification/Executor_Invariants.thy ===== *)
theory Executor_Invariants
  imports Executor_Concurrency
begin

text \<open>
  Inductive invariants of the interleaved executors, one preservation lemma per action, and
  their instances of the \<open>invariant_system\<close> and \<open>stable_predicate\<close> interfaces.
\<close>

section \<open>Executors only grow and break\<close>

definition store_le :: "'j store \<Rightarrow> 'j store \<Rightarrow> bool" where
  "store_le st st' \<longleftrightarrow> (\<forall>e x. st e = Some x \<longrightarrow> (\<exists>x'. st' e = Some x' \<and>
     old_executor x' = old_executor x \<and> work_thread x' = work_thread x \<and> (broken x \<longrightarrow> broken x')))"

lemma store_le_refl [simp]: "store_le st st"
  by (simp add: store_le_def)

lemma store_le_upd:
  assumes "st e = Some x" and "old_executor x' = old_executor x"
    and "work_thread x' = work_thread x" and "broken x \<Longrightarrow> broken x'"
  shows "store_le st (st(e \<mapsto> x'))"
  using assms by (auto simp: store_le_def)

lemma store_le_fresh: "st e = None \<Longrightarrow> store_le st (st(e \<mapsto> x))"
  by (auto simp: store_le_def)

lemma store_le_stack: "stack st e es \<Longrightarrow> store_le st st' \<Longrightarrow> stack st' e es"
proof (induction rule: stack.induct)
  case (stack_top e x)
  then show ?case by (metis stack.stack_top store_le_def)
next
  case (stack_below e x p es)
  then show ?case by (metis stack.stack_below store_le_def)
qed

lemma store_le_dead: "store_le st st' \<Longrightarrow> st e \<noteq> None \<Longrightarrow> \<not> live st e \<Longrightarrow> \<not> live st' e"
  by (fastforce simp: store_le_def live_def)

section \<open>The store invariant\<close>

definition store_inv :: "'j sys \<Rightarrow> bool" where
  "store_inv s \<longleftrightarrow> wf_store (execs s) \<and> (\<forall>e. execs s e \<noteq> None \<longrightarrow> e < next_eid s)"

lemma store_inv_fresh: "store_inv s \<Longrightarrow> execs s (next_eid s) = None"
  by (metis less_irrefl store_inv_def)

lemma store_inv_upd:
  assumes "store_inv s" and "execs s e = Some x" and "old_executor x' = old_executor x"
    and "execs t = (execs s)(e \<mapsto> x')" and "next_eid t = next_eid s"
  shows "store_inv t"
  using assms wf_store_update [of "execs s" e x x'] by (auto simp: store_inv_def)

lemma store_inv_same:
  "store_inv s \<Longrightarrow> execs t = execs s \<Longrightarrow> next_eid t = next_eid s \<Longrightarrow> store_inv t"
  by (simp add: store_inv_def)

lemma store_inv_create:
  assumes "store_inv s" and "\<And>p. old = Some p \<Longrightarrow> execs s p \<noteq> None"
  shows "store_inv (s\<lparr>execs := (execs s)(next_eid s \<mapsto> new_executor t old), next_eid := Suc (next_eid s)\<rparr>)"
proof -
  have "wf_store ((execs s)(next_eid s \<mapsto> new_executor t old))"
    using assms store_inv_fresh [OF assms(1)] by (intro wf_store_create) (auto simp: store_inv_def)
  with assms(1) show ?thesis by (auto simp: store_inv_def less_SucI)
qed

text \<open>How the executor store changes in one action: not at all, at one place, or by a new object.\<close>

inductive store_change :: "'j sys \<Rightarrow> 'j sys \<Rightarrow> bool" for s t where
  same: "execs t = execs s \<Longrightarrow> next_eid t = next_eid s \<Longrightarrow> store_change s t"
| upd: "execs s e = Some x \<Longrightarrow> execs t = (execs s)(e \<mapsto> x') \<Longrightarrow> next_eid t = next_eid s \<Longrightarrow>
    old_executor x' = old_executor x \<Longrightarrow> work_thread x' = work_thread x \<Longrightarrow>
    (broken x \<Longrightarrow> broken x') \<Longrightarrow> store_change s t"
| fresh: "(\<And>p. old = Some p \<Longrightarrow> execs s p \<noteq> None) \<Longrightarrow>
    t = s\<lparr>execs := (execs s)(next_eid s \<mapsto> new_executor th old), next_eid := Suc (next_eid s)\<rparr> \<Longrightarrow>
    store_change s t"

lemma store_change_done_block:
  assumes "execs u = execs s" and "next_eid u = next_eid s"
  shows "store_change s (done_block e u)"
proof (cases "execs s e")
  case None
  with assms show ?thesis by (intro same) (simp_all add: block_defs fun_upd_idem)
next
  case (Some x)
  with assms show ?thesis
    by (intro upd [OF Some, where x' = "mark_done x"]) (simp_all add: block_defs)
qed

lemma store_change_round:
  assumes "execs s e = Some x"
  shows "store_change s (round_block e x s)"
proof (cases "next_round x")
  case (Pair r x')
  with assms show ?thesis
    by (cases r) (auto simp: round_block_def intro: same, auto intro!: upd [OF assms]
        simp: next_round_def split: if_splits list.splits)
qed

lemma store_change_offer:
  assumes "offer_block th j e d s = Some t"
  shows "store_change s t"
proof (cases "execs s d")
  case (Some x)
  show ?thesis
  proof (cases "broken x")
    case True
    with assms Some show ?thesis by (auto simp: block_defs intro: same split: option.splits)
  next
    case False
    with assms Some show ?thesis by (auto simp: block_defs intro!: upd [OF Some])
  qed
qed (use assms in \<open>simp add: offer_block_def\<close>)

lemma store_change_start: "start_run th e s = Inr t \<Longrightarrow> store_change s t"
  by (auto simp: start_run_def intro: same split: option.splits if_splits)

lemma perform_store_change:
  assumes "perform a s = Some t"
  shows "store_change s t"
proof (cases a)
  case (Create th old)
  with assms show ?thesis
    by (intro fresh [of old _ _ th]) (auto split: if_splits)
qed (use assms in \<open>auto simp: start_submit_def intro: same store_change_done_block
      store_change_round store_change_offer store_change_start
      split: if_splits option.splits sum.splits control.splits submitter.splits\<close>)

lemma perform_store_le: "perform a s = Some t \<Longrightarrow> store_inv s \<Longrightarrow> store_le (execs s) (execs t)"
  by (drule perform_store_change, erule store_change.cases)
    (simp_all add: store_le_upd store_le_fresh store_inv_fresh)

lemma store_inv_step: "store_inv s \<Longrightarrow> sys_step s t \<Longrightarrow> store_inv t"
  by (erule sys_step.cases, drule perform_store_change, erule store_change.cases)
    (auto intro: store_inv_same store_inv_upd store_inv_create)

section \<open>The invariant of one executor\<close>

fun in_flight :: "'j control \<Rightarrow> 'j list" where
  "in_flight (Running j) = [j]"
| "in_flight _ = []"

text \<open>
  What holds between the fields of an executor, the control state of its runner, the state of
  the awaited future and its callback, and the history of jobs.
\<close>

fun view_ok :: "'j executor option \<Rightarrow> 'j control \<Rightarrow> callback \<Rightarrow> bool \<Rightarrow> 'j list \<Rightarrow> 'j list \<Rightarrow> bool" where
  "view_ok None c cb r acc rn \<longleftrightarrow> c = NotRunning \<and> cb = Unregistered \<and> acc = [] \<and> rn = []"
| "view_ok (Some x) c cb r acc rn \<longleftrightarrow>
     acc = rn @ in_flight c @ work_items x \<and>
     (broken x \<longrightarrow> r) \<and>
     (case cb of Registered \<Rightarrow> \<not> r | Firing \<Rightarrow> r | Fired \<Rightarrow> broken x | Unregistered \<Rightarrow> True) \<and>
     (case c of
        NotRunning \<Rightarrow> \<not> broken x \<and> cb = Unregistered
      | SelfCallback \<Rightarrow> r \<and> cb = Unregistered
      | Parked \<Rightarrow> work_items x = [] \<and> \<not> broken x \<and> (cb = Registered \<or> cb = Firing)
      | Exited \<Rightarrow> work_items x = [] \<and> broken x
      | _ \<Rightarrow> \<not> broken x \<longrightarrow> cb = Registered \<or> cb = Firing)"

definition exec_inv :: "'j sys \<Rightarrow> eid \<Rightarrow> bool" where
  "exec_inv s e \<longleftrightarrow>
     view_ok (execs s e) (control s e) (callback s e) (resolved s e) (accepted s e) (ran s e)"

definition sys_inv :: "'j sys \<Rightarrow> bool" where
  "sys_inv s \<longleftrightarrow> store_inv s \<and> (\<forall>e. exec_inv s e)"

lemma exec_inv_frame:
  assumes "exec_inv s e" and "execs t e = execs s e" and "control t e = control s e"
    and "callback t e = callback s e" and "resolved t e = resolved s e"
    and "accepted t e = accepted s e" and "ran t e = ran s e"
  shows "exec_inv t e"
  using assms by (simp add: exec_inv_def)

lemma exec_inv_create:
  assumes "exec_inv s d" and "execs s (next_eid s) = None" and "exec_inv s (next_eid s)"
    and "perform (Create th old) s = Some u"
  shows "exec_inv u d"
  using assms by (cases "d = next_eid s") (auto simp: exec_inv_def executor_defs split: if_splits)

lemma exec_inv_start:
  assumes "exec_inv s d" and "perform (Start th e) s = Some u"
  shows "exec_inv u d"
  using assms
  by (cases "d = e"; cases "execs s e"; cases "control s e"; cases "callback s e")
    (auto simp: exec_inv_def block_defs split: if_splits list.splits)

lemma exec_inv_self_fire:
  assumes "exec_inv s d" and "perform (SelfFire e) s = Some u"
  shows "exec_inv u d"
  using assms
  by (cases "d = e"; cases "execs s e"; cases "control s e"; cases "callback s e")
    (auto simp: exec_inv_def block_defs split: if_splits list.splits)

lemma exec_inv_resolve:
  assumes "exec_inv s d" and "perform (Resolve e) s = Some u"
  shows "exec_inv u d"
  using assms
  by (cases "d = e"; cases "execs s e"; cases "control s e"; cases "callback s e")
    (auto simp: exec_inv_def block_defs split: if_splits list.splits)

lemma exec_inv_fire:
  assumes "exec_inv s d" and "perform (Fire e) s = Some u"
  shows "exec_inv u d"
  using assms
  by (cases "d = e"; cases "execs s e"; cases "control s e"; cases "callback s e")
    (auto simp: exec_inv_def block_defs split: if_splits list.splits)

lemma exec_inv_round:
  assumes "exec_inv s d" and "perform (Round e) s = Some u"
  shows "exec_inv u d"
  using assms
  by (cases "d = e"; cases "execs s e"; cases "control s e"; cases "callback s e")
    (auto simp: exec_inv_def block_defs split: if_splits list.splits)

lemma exec_inv_finish:
  assumes "exec_inv s d" and "perform (Finish e) s = Some u"
  shows "exec_inv u d"
  using assms
  by (cases "d = e"; cases "execs s e"; cases "control s e"; cases "callback s e")
    (auto simp: exec_inv_def block_defs split: if_splits list.splits)

lemma exec_inv_submit: "exec_inv s d \<Longrightarrow> perform (Submit th e j) s = Some u \<Longrightarrow> exec_inv u d"
  by (auto simp: start_submit_def elim!: exec_inv_frame split: if_splits option.splits)

lemma exec_inv_offer_block:
  assumes "exec_inv s d" and "offer_block th j e c s = Some u"
  shows "exec_inv u d"
  using assms
  by (cases "d = c"; cases "execs s c"; cases "control s c"; cases "callback s c")
    (auto simp: exec_inv_def block_defs split: if_splits option.splits)

lemma exec_inv_offer: "exec_inv s d \<Longrightarrow> perform (Offer th) s = Some u \<Longrightarrow> exec_inv u d"
  by (auto intro: exec_inv_offer_block split: submitter.splits)

lemma exec_inv_collect: "exec_inv s d \<Longrightarrow> perform (Collect th) s = Some u \<Longrightarrow> exec_inv u d"
  by (auto elim!: exec_inv_frame split: submitter.splits)

lemmas exec_inv_actions = exec_inv_start exec_inv_self_fire exec_inv_resolve exec_inv_fire
  exec_inv_round exec_inv_finish exec_inv_submit exec_inv_offer exec_inv_collect

lemma exec_inv_perform:
  assumes "sys_inv s" and "perform a s = Some t"
  shows "exec_inv t e"
proof (cases a)
  case (Create th old)
  with assms show ?thesis
    using exec_inv_create store_inv_fresh by (metis sys_inv_def)
qed (use assms in \<open>metis exec_inv_actions sys_inv_def\<close>)+

lemma sys_inv_step: "sys_inv s \<Longrightarrow> sys_step s t \<Longrightarrow> sys_inv t"
  using store_inv_step exec_inv_perform by (metis sys_inv_def sys_step.cases)

lemma sys_inv_start: "sys_init s \<Longrightarrow> sys_inv s"
  by (simp add: sys_init_def sys_start_def sys_inv_def store_inv_def exec_inv_def)

interpretation executors: invariant_system sys_step sys_inv sys_init
  by unfold_locales (rule sys_inv_step, assumption+, rule sys_inv_start)

lemma reach_exec_inv: "reach sys_init sys_step s \<Longrightarrow> exec_inv s e"
  using executors.invariant by (auto simp: sys_inv_def)

lemma reach_store_inv: "reach sys_init sys_step s \<Longrightarrow> store_inv s"
  using executors.invariant by (auto simp: sys_inv_def)

end
