(* ===== verification/Executor_Contract.thy ===== *)
theory Executor_Contract
  imports Executor_Invariants
begin

text \<open>
  What \<open>CurrentThreadExecutor\<close> promises its clients under every interleaving: where
  \<open>submit\<close> places work and when it refuses, that accepted work runs exactly once and in
  order, that a sleeping runner has nothing to do, and that a runner whose future is done is
  never stuck.
\<close>

section \<open>Submitting under interference\<close>

lemma stack_suffix: "stack st e (ds @ d # es) \<Longrightarrow> stack st d (d # es)"
proof (induction ds arbitrary: e)
  case Nil
  then show ?case using stack_head by fastforce
next
  case (Cons c ds)
  from Cons.prems have "stack st e (c # (ds @ d # es))" by simp
  then obtain p where "stack st p (ds @ d # es)" by (cases rule: stack.cases) auto
  then show ?case by (rule Cons.IH)
qed

lemma stack_last:
  assumes "stack st e (ds @ d # es)" and "st d = Some x" and "old_executor x = None"
  shows "es = []"
  using stack_suffix [OF assms(1)] assms(2,3) by (cases rule: stack.cases) auto

lemma stack_next:
  assumes "stack st e (ds @ d # es)" and "st d = Some x" and "old_executor x = Some p"
  obtains fs where "es = p # fs"
proof -
  from stack_suffix [OF assms(1)] assms(2,3) have "stack st p es"
    by (cases rule: stack.cases) auto
  then show thesis using stack_head that by blast
qed

text \<open>
  \<open>skipped st e ds d\<close>: \<open>d\<close> is on the stack of \<open>e\<close> and the executors below it,
  \<open>ds\<close>, have all stopped.
\<close>

definition skipped :: "'j store \<Rightarrow> eid \<Rightarrow> eid list \<Rightarrow> eid \<Rightarrow> bool" where
  "skipped st e ds d \<longleftrightarrow> (\<exists>es. stack st e (ds @ d # es)) \<and> (\<forall>c\<in>set ds. \<not> live st c)"

fun submitter_ok :: "'j store \<Rightarrow> (eid \<Rightarrow> 'j list) \<Rightarrow> 'j submitter \<Rightarrow> bool" where
  "submitter_ok st acc (Trying j e d) = (\<exists>ds. skipped st e ds d)"
| "submitter_ok st acc (Accepted j e d) = ((\<exists>ds. skipped st e ds d) \<and> j \<in> set (acc d))"
| "submitter_ok st acc (Refused j e) = (\<exists>es. stack st e es \<and> (\<forall>c\<in>set es. \<not> live st c))"
| "submitter_ok st acc _ = True"

lemma dead_stays:
  assumes "stack st e es" and "store_le st st'" and "\<forall>c\<in>A. \<not> live st c" and "A \<subseteq> set es"
  shows "\<forall>c\<in>A. \<not> live st' c"
proof
  fix c assume "c \<in> A"
  with stack_present [OF assms(1)] assms(4) have "st c \<noteq> None" by blast
  with \<open>c \<in> A\<close> assms(2,3) show "\<not> live st' c" using store_le_dead by blast
qed

lemma skipped_mono: "skipped st e ds d \<Longrightarrow> store_le st st' \<Longrightarrow> skipped st' e ds d"
proof -
  assume sk: "skipped st e ds d" and le: "store_le st st'"
  then obtain es where es: "stack st e (ds @ d # es)" by (auto simp: skipped_def)
  have "\<forall>c\<in>set ds. \<not> live st' c"
    by (rule dead_stays [OF es le]) (use sk in \<open>auto simp: skipped_def\<close>)
  with store_le_stack [OF es le] show ?thesis by (auto simp: skipped_def)
qed

lemma submitter_ok_mono:
  assumes "submitter_ok st acc u" and "store_le st st'" and "\<And>d. set (acc d) \<subseteq> set (acc' d)"
  shows "submitter_ok st' acc' u"
proof (cases u)
  case (Refused j e)
  with assms obtain es where "stack st e es" and "\<forall>c\<in>set es. \<not> live st c" by auto
  then have "stack st' e es" and "\<forall>c\<in>set es. \<not> live st' c"
    using assms(2) store_le_stack dead_stays by blast+
  with Refused show ?thesis by auto
next
  case (Trying j e d)
  with assms(1,2) skipped_mono show ?thesis by (metis submitter_ok.simps(1))
next
  case (Accepted j e d)
  with assms skipped_mono show ?thesis by (metis submitter_ok.simps(2) subsetD)
qed simp_all

lemma accepted_grows: "perform a s = Some t \<Longrightarrow> set (accepted s d) \<subseteq> set (accepted t d)"
  by (cases a) (auto simp: start_submit_def start_run_def offer_block_def round_block_def
      notify_def done_block_def split: sys_splits)

lemma submitter_other:
  "perform a s = Some t \<Longrightarrow> a \<notin> {Offer th, Collect th} \<Longrightarrow> (\<forall>e j. a \<noteq> Submit th e j) \<Longrightarrow>
     submitter t th = submitter s th"
  by (cases a) (auto simp: start_submit_def start_run_def offer_block_def round_block_def
      notify_def done_block_def split: sys_splits)

lemma skipped_start:
  assumes "wf_store st" and "st e = Some x"
  shows "skipped st e [] e"
  using stack_exists [OF assms] stack_head by (fastforce simp: skipped_def)

lemma skipped_up:
  assumes "skipped st e ds d" and "st d = Some x" and "broken x" and "old_executor x = Some p"
  shows "skipped st e (ds @ [d]) p"
proof -
  from assms(1) obtain es where "stack st e (ds @ d # es)" by (auto simp: skipped_def)
  moreover then obtain fs where "es = p # fs" using stack_next assms(2,4) by blast
  ultimately show ?thesis using assms by (auto simp: skipped_def)
qed

lemma skipped_top:
  assumes "skipped st e ds d" and "st d = Some x" and "broken x" and "old_executor x = None"
  shows "\<exists>es. stack st e es \<and> (\<forall>c\<in>set es. \<not> live st c)"
proof -
  from assms(1) obtain es where es: "stack st e (ds @ d # es)" by (auto simp: skipped_def)
  then have "es = []" using stack_last assms(2,4) by blast
  with es assms show ?thesis by (auto simp: skipped_def intro!: exI [of _ "ds @ [d]"])
qed

lemma submitter_ok_offer:
  assumes "skipped (execs s) e ds d" and "offer_block th j e d s = Some t"
    and "store_le (execs s) (execs t)"
  shows "submitter_ok (execs t) (accepted t) (submitter t th)"
proof (cases "execs s d")
  case (Some x)
  show ?thesis
  proof (cases "broken x")
    case True
    show ?thesis
    proof (cases "old_executor x")
      case None
      with True Some assms(2) skipped_top [OF assms(1) Some True] show ?thesis
        by (auto simp: offer_block_def offer_def)
    next
      case (Some p)
      with True \<open>execs s d = Some x\<close> assms(2) skipped_up [OF assms(1) \<open>execs s d = Some x\<close> True Some]
      show ?thesis by (auto simp: offer_block_def offer_def)
    qed
  next
    case False
    with Some assms(2) have "submitter t th = Accepted j e d" and "j \<in> set (accepted t d)"
      by (auto simp: offer_block_def offer_def notify_def)
    with skipped_mono [OF assms(1,3)] show ?thesis by auto
  qed
qed (use assms(2) in \<open>simp add: offer_block_def\<close>)

definition submit_inv :: "'j sys \<Rightarrow> bool" where
  "submit_inv s \<longleftrightarrow> store_inv s \<and> (\<forall>th. submitter_ok (execs s) (accepted s) (submitter s th))"

lemma submitter_ok_perform:
  assumes "submit_inv s" and "perform a s = Some t"
  shows "submitter_ok (execs t) (accepted t) (submitter t th)"
proof -
  have le: "store_le (execs s) (execs t)"
    using assms perform_store_le by (auto simp: submit_inv_def)
  have before: "submitter_ok (execs s) (accepted s) (submitter s th)"
    using assms(1) by (simp add: submit_inv_def)
  consider (offer) "a = Offer th" | (collect) "a = Collect th" | (submit) e j where "a = Submit th e j"
    | (other) "a \<notin> {Offer th, Collect th}" "\<forall>e j. a \<noteq> Submit th e j" by blast
  then show ?thesis
  proof cases
    case offer
    with assms(2) obtain j e d where "submitter s th = Trying j e d" "offer_block th j e d s = Some t"
      by (auto split: submitter.splits)
    with before le show ?thesis by (auto intro: submitter_ok_offer)
  next
    case collect
    with assms(2) show ?thesis by (auto split: submitter.splits)
  next
    case submit
    with assms skipped_start show ?thesis
      by (fastforce simp: start_submit_def submit_inv_def store_inv_def split: if_splits option.splits)
  next
    case other
    then have "submitter t th = submitter s th" using assms(2) submitter_other by blast
    with submitter_ok_mono [OF before le accepted_grows [OF assms(2)]] show ?thesis by simp
  qed
qed

lemma submit_inv_step: "submit_inv s \<Longrightarrow> sys_step s t \<Longrightarrow> submit_inv t"
  using submitter_ok_perform store_inv_step by (metis submit_inv_def sys_step.cases)

lemma submit_inv_start: "sys_init s \<Longrightarrow> submit_inv s"
  by (simp add: submit_inv_def sys_init_def sys_start_def store_inv_def)

interpretation submitters: invariant_system sys_step submit_inv sys_init
  by unfold_locales (rule submit_inv_step, assumption+, rule submit_inv_start)

section \<open>A runner that has exited\<close>

lemma exited_perform:
  assumes "sys_inv s" and "control s e = Exited" and "perform a s = Some t"
  shows "control t e = Exited \<and> accepted t e = accepted s e"
proof -
  from assms(1,2) obtain x where x: "execs s e = Some x" "broken x"
    by (cases "execs s e") (auto simp: sys_inv_def exec_inv_def dest: spec [of _ e])
  show ?thesis
  proof (cases a)
    case (Offer th)
    with assms x show ?thesis
      by (auto simp: offer_block_def offer_def notify_def split: if_splits option.splits submitter.splits)
  qed (use assms x in \<open>auto simp: start_submit_def start_run_def round_block_def notify_def
        done_block_def split: sys_splits\<close>)
qed

interpretation exited: stable_predicate sys_step
  "\<lambda>s. sys_inv s \<and> control s e = Exited \<and> accepted s e = acc" for e acc
  by unfold_locales (metis exited_perform sys_inv_step sys_step.cases)

lemma exited_history:
  assumes "sys_inv s" and "control s e = Exited"
  shows "ran s e = accepted s e"
  using assms by (cases "execs s e") (auto simp: sys_inv_def exec_inv_def dest: spec [of _ e])

section \<open>Runs for witnesses\<close>

definition demo :: "nat action list \<Rightarrow> nat sys" where
  "demo as = the (perform_all as sys_start)"

lemma reach_demo: "perform_all as sys_start \<noteq> None \<Longrightarrow> reach sys_init sys_step (demo as)"
  by (auto simp: demo_def intro: perform_all_reach)

lemmas demo_eval = demo_def sys_start_def block_defs

section \<open>The contract\<close>



text \<open>C17: accepted work runs exactly once and in order. In every reachable interleaving the jobs
  ever appended to an executor's queue are, in that order, the jobs already run, the one being
  run, and the ones still queued.\<close>

theorem accepted_runs_once_in_order:
  assumes "reach sys_init sys_step s" and "execs s e = Some x"
  shows "accepted s e = ran s e @ in_flight (control s e) @ work_items x"
  using reach_exec_inv [OF assms(1), of e] assms(2) by (simp add: exec_inv_def)

theorem accepted_runs_once_in_order_witness:
  "\<exists>x. execs (demo [Create 0 None, Submit 1 0 7, Offer 1, Collect 1, Submit 1 0 8, Offer 1,
      Start 0 0, Round 0]) 0 = Some x \<and> [7, 8] = [] @ [7] @ work_items x"
proof -
  let ?s = "demo [Create 0 None, Submit 1 0 7, Offer 1, Collect 1, Submit 1 0 8, Offer 1,
      Start 0 0, Round 0]"
  have r: "reach sys_init sys_step ?s" by (rule reach_demo) (simp add: demo_eval)
  obtain x where x: "execs ?s 0 = Some x" by (simp add: demo_eval)
  have "accepted ?s 0 = [7, 8]" "ran ?s 0 = []" "control ?s 0 = Running 7"
    by (simp_all add: demo_eval)
  with accepted_runs_once_in_order [OF r x] x show ?thesis by simp
qed

text \<open>C18: work is never dropped at shutdown. Once \<open>run_until_future\<close> has returned for an
  executor, then in every continuation it has run everything it ever accepted, and it accepts
  nothing more.\<close>

theorem exit_drops_no_work:
  assumes "reach sys_init sys_step s" and "control s e = Exited" and "sys_step\<^sup>*\<^sup>* s t"
  shows "ran t e = accepted t e \<and> accepted t e = accepted s e"
proof -
  have "sys_inv s" using assms(1) by (rule executors.invariant)
  with assms(2) exited.stays [OF assms(3), of e "accepted s e"]
  have "sys_inv t" "control t e = Exited" "accepted t e = accepted s e" by auto
  then show ?thesis using exited_history by blast
qed

theorem exit_drops_no_work_witness:
  "ran (demo [Create 0 None, Submit 1 0 7, Offer 1, Start 0 0, Resolve 0, Fire 0, Round 0, Finish 0,
     Round 0]) 0 = [7]"
proof -
  let ?s = "demo [Create 0 None, Submit 1 0 7, Offer 1, Start 0 0, Resolve 0, Fire 0, Round 0, Finish 0,
     Round 0]"
  have r: "reach sys_init sys_step ?s" by (rule reach_demo) (simp add: demo_eval)
  have c: "control ?s 0 = Exited" and a: "accepted ?s 0 = [7]" by (simp_all add: demo_eval)
  from exit_drops_no_work [OF r c rtranclp.rtrancl_refl] a show ?thesis by simp
qed

text \<open>A runner whose future is done is never stuck. In every reachable interleaving, if the
  awaited future is done and the runner has started but not exited, then some action that leads
  it on is enabled: the runner itself can move, or the callback can be delivered.\<close>

theorem resolved_runner_progresses:
  assumes "reach sys_init sys_step s" and "execs s e = Some x" and "resolved s e"
    and "control s e \<noteq> NotRunning" and "control s e \<noteq> Exited"
  shows "\<exists>a \<in> {SelfFire e, Fire e, Round e, Finish e}. perform a s \<noteq> None"
  using reach_exec_inv [OF assms(1), of e] assms(2-5)
  by (cases "control s e") (auto simp: exec_inv_def)

theorem resolved_runner_progresses_witness:
  "\<exists>a \<in> {SelfFire 0, Fire 0, Round 0, Finish 0}.
     perform a (demo [Create 0 None, Resolve 0, Start 0 0]) \<noteq> None"
proof -
  let ?s = "demo [Create 0 None, Resolve 0, Start 0 0]"
  have r: "reach sys_init sys_step ?s" by (rule reach_demo) (simp add: demo_eval)
  obtain x where x: "execs ?s 0 = Some x" by (simp add: demo_eval)
  have "resolved ?s 0" "control ?s 0 \<noteq> NotRunning" "control ?s 0 \<noteq> Exited"
    by (simp_all add: demo_eval)
  then show ?thesis by (rule resolved_runner_progresses [OF r x])
qed

text \<open>\<open>submit\<close> refuses only when everything has stopped. In every reachable interleaving,
  if \<open>submit\<close> on \<open>e\<close> ended with "already quit or is broken", then every executor on the
  stack of \<open>e\<close> has stopped taking work, because the future each of them waited for is done.\<close>

theorem refused_only_if_all_stopped:
  assumes "reach sys_init sys_step s" and "submitter s th = Refused j e"
  shows "\<exists>es. stack (execs s) e es \<and> (\<forall>d\<in>set es. \<not> live (execs s) d \<and> resolved s d)"
proof -
  have "submit_inv s" using assms(1) by (rule submitters.invariant)
  then have "submitter_ok (execs s) (accepted s) (submitter s th)" by (simp add: submit_inv_def)
  with assms(2) obtain es where es: "stack (execs s) e es" "\<forall>d\<in>set es. \<not> live (execs s) d" by auto
  have "resolved s d" if "d \<in> set es" for d
  proof -
    from that es stack_present obtain y where "execs s d = Some y" "broken y" by fastforce
    with reach_exec_inv [OF assms(1), of d] show ?thesis by (simp add: exec_inv_def)
  qed
  with es show ?thesis by blast
qed

theorem refused_only_if_all_stopped_witness:
  "resolved (demo [Create 0 None, Resolve 0, Start 0 0, SelfFire 0, Submit 1 0 7, Offer 1]) 0"
proof -
  let ?s = "demo [Create 0 None, Resolve 0, Start 0 0, SelfFire 0, Submit 1 0 7, Offer 1]"
  have r: "reach sys_init sys_step ?s" by (rule reach_demo) (simp add: demo_eval)
  have "submitter ?s 1 = Refused 7 0" by (simp add: demo_eval)
  from refused_only_if_all_stopped [OF r this] obtain es where
    "stack (execs ?s) 0 es" "\<forall>d\<in>set es. resolved ?s d" by blast
  with stack_head show ?thesis by fastforce
qed



section \<open>One call at a time\<close>

text \<open>C20: \<open>submit\<close> always returns, and says where the work went. On every store the program can
  build, \<open>submit\<close> raises \<open>RuntimeError\<close> for a caller on the executor's own thread, appends
  the job to the first executor of the stack that is not broken, and raises \<open>RuntimeError\<close>
  when there is none.\<close>

theorem submit_total:
  assumes "wf_store st" and "st e = Some x"
  shows "\<exists>es. stack st e es \<and>
    submit st th e j = Some (if th = work_thread x then Inl RuntimeError
      else case find (live st) es of None \<Rightarrow> Inl RuntimeError | Some d \<Rightarrow> Inr (enqueue j d st))"
proof -
  obtain es where "stack st e es" using stack_exists [OF assms] by blast
  with assms(2) submit_walk_stack show ?thesis by (fastforce simp: submit_def)
qed

theorem submit_total_witness:
  "submit [0 \<mapsto> new_executor 5 None] 5 0 (7::nat) = Some (Inl RuntimeError)"
proof -
  let ?st = "[0 \<mapsto> new_executor 5 None :: nat executor]"
  have w: "wf_store ?st" by (simp add: wf_store_def new_executor_def)
  have x: "?st 0 = Some (new_executor 5 None)" by simp
  from submit_total [of ?st 0 "new_executor 5 None" 5 7, OF w x] show ?thesis
    by (auto simp: new_executor_def)
qed

text \<open>The outcome of the sequential walk against the state of the submitting thread.\<close>

definition matches :: "tid \<Rightarrow> 'j \<Rightarrow> eid \<Rightarrow> 'j store \<Rightarrow> exn + 'j store \<Rightarrow> 'j sys \<Rightarrow> bool" where
  "matches th j e st r t \<longleftrightarrow> (case r of
     Inr st' \<Rightarrow> execs t = st' \<and> (\<exists>c. submitter t th = Accepted j e c)
   | Inl err \<Rightarrow> err = RuntimeError \<and> execs t = st \<and> submitter t th = Refused j e)"

lemma offer_rounds:
  assumes "stack st d es" and "execs s = st" and "submitter s th = Trying j e d"
    and "submit_walk st d j = Some r"
  shows "\<exists>n t. perform_all (replicate n (Offer th)) s = Some t \<and> matches th j e st r t"
  using assms
proof (induction arbitrary: s rule: stack.induct)
  case (stack_top d x)
  from stack_top.prems(3) stack_top.hyps
  have "r = (if broken x then Inl RuntimeError else Inr (enqueue j d st))"
    by (subst (asm) submit_walk.simps) (auto simp: offer_def)
  with stack_top show ?case
    by (intro exI [of _ "1::nat"]) (simp add: offer_block_def notify_def offer_def matches_def)
next
  case (stack_below d x p es)
  show ?case
  proof (cases "broken x")
    case False
    with stack_below.prems(3) stack_below.hyps have "r = Inr (enqueue j d st)"
      by (subst (asm) submit_walk.simps) (auto simp: offer_def)
    with stack_below False show ?thesis
      by (intro exI [of _ "1::nat"]) (simp add: offer_block_def notify_def offer_def matches_def)
  next
    case True
    let ?u = "s\<lparr>submitter := (submitter s)(th := Trying j e p)\<rparr>"
    have "submit_walk st p j = Some r"
      using stack_below.prems(3) stack_below.hyps True
      by (subst (asm) submit_walk.simps) (simp add: offer_def)
    then obtain n t where "perform_all (replicate n (Offer th)) ?u = Some t" and
      "matches th j e st r t"
      using stack_below.IH [of ?u] stack_below.prems by auto
    moreover have "perform (Offer th) s = Some ?u"
      using stack_below.prems stack_below.hyps True by (simp add: offer_block_def offer_def)
    ultimately show ?thesis by (intro exI [of _ "Suc n"] exI [of _ t]) simp
  qed
qed

text \<open>The interleaved model refines the sequential one. If no other thread interferes, the
  locked rounds of one submitting thread end, and leave exactly the executors that
  \<open>submit\<close>'s walk computes, with the matching outcome.\<close>

theorem interleaved_submit_refines_walk:
  assumes "store_inv s" and "submitter s th = Trying j e e" and "execs s e = Some x"
  shows "\<exists>r n t. submit_walk (execs s) e j = Some r \<and>
    perform_all (replicate n (Offer th)) s = Some t \<and> matches th j e (execs s) r t"
proof -
  from assms(1) have "wf_store (execs s)" by (simp add: store_inv_def)
  from stack_exists [OF this assms(3)] obtain es where es: "stack (execs s) e es" ..
  from submit_walk_stack [OF es] obtain r where r: "submit_walk (execs s) e j = Some r" ..
  from offer_rounds [OF es refl assms(2) r] r show ?thesis by blast
qed

theorem interleaved_submit_refines_walk_witness:
  "\<exists>r. submit_walk (execs (demo [Create 0 None, Submit 1 0 7])) 0 7 = Some r"
proof -
  let ?s = "demo [Create 0 None, Submit 1 0 7]"
  have "reach sys_init sys_step ?s" by (rule reach_demo) (simp add: demo_eval)
  then have i: "store_inv ?s" by (rule reach_store_inv)
  have t: "submitter ?s 1 = Trying 7 0 0" by (simp add: demo_eval)
  obtain x where x: "execs ?s 0 = Some x" by (simp add: demo_eval)
  from interleaved_submit_refines_walk [OF i t x] show ?thesis by blast
qed

end
