(* ===== verification/Local_Storage.thy ===== *)
theory Local_Storage
  imports Prelude
begin

text \<open>
  \<open>asgiref/local.py\<close>: the namespace object \<open>Local\<close> over context variables, its
  \<open>_CVar\<close> storage for thread-critical use, and \<open>_rehome\<close>. The dictionaries that hold the
  attributes live in an explicit memory, so that sharing between contexts is visible and the
  copy-on-write discipline is a theorem.
\<close>

section \<open>Context variables and memory\<close>

text \<open>
  A context variable is an object with a name; two variables may share the name. A context maps
  variables to values. The values the package itself stores are the pair
  \<open>(thread_id, data)\<close> of \<open>Local\<close> and the dict of \<open>_CVar\<close>; every other value, and every
  value inside a foreign tuple, is a user value of type \<open>'v\<close>.
\<close>

datatype cvar = ContextVar (cvar_name: string) (cvar_id: nat)

type_synonym addr = nat

datatype 'v elem = EIdent tid | EDict addr | EUser 'v

datatype 'v cval = CTuple "'v elem list" | CDict addr | CUser 'v

type_synonym 'v ctxt = "(cvar, 'v cval) dict"

record 'v mem =
  dicts :: "addr \<Rightarrow> (string, 'v) dict"
  next_addr :: addr

definition new_dict :: "(string, 'v) dict \<Rightarrow> 'v mem \<Rightarrow> addr \<times> 'v mem" where
  "new_dict d m = (next_addr m,
     m\<lparr>dicts := (dicts m)(next_addr m := d), next_addr := Suc (next_addr m)\<rparr>)"

text \<open>What a thread works on: the memory all threads share, and its own current context.\<close>

record 'v frame =
  mem :: "'v mem"
  ctx :: "'v ctxt"

section \<open>Local, not thread-critical\<close>

definition local_cvar_name :: string where
  "local_cvar_name = ''asgiref.local''"

definition rehome :: "tid \<Rightarrow> 'v elem list \<Rightarrow> exn + 'v elem list" where
  "rehome me storage = (case storage of _ # data # _ \<Rightarrow> Inr [EIdent me, data] | _ \<Rightarrow> Inl IndexError)"

text \<open>The names that assignment stores on the object itself, past the storage.\<close>

definition own_slots :: "string list" where
  "own_slots = [''_local'', ''_storage'', ''_cvar'', ''_thread_critical'']"

datatype 's assigned = OwnSlot | Stored 's

text \<open>
  The storage that a thread may look at: present, and tagged with this thread. Only \<open>Local\<close>
  itself and \<open>_rehome\<close> write this variable, so no other shape occurs.
\<close>

fun owned_data :: "tid \<Rightarrow> 'v cval option \<Rightarrow> addr option" where
  "owned_data me (Some (CTuple [EIdent i, EDict a])) = (if i = me then Some a else None)"
| "owned_data me _ = None"

definition local_getattr :: "tid \<Rightarrow> cvar \<Rightarrow> string \<Rightarrow> 'v frame \<Rightarrow> exn + 'v" where
  "local_getattr me var k f = (case owned_data me (dict_get (ctx f) var) of
     Some a \<Rightarrow> (case dict_get (dicts (mem f) a) k of Some v \<Rightarrow> Inr v | None \<Rightarrow> Inl AttributeError)
   | None \<Rightarrow> Inl AttributeError)"

definition publish :: "tid \<Rightarrow> cvar \<Rightarrow> (string, 'v) dict \<Rightarrow> 'v frame \<Rightarrow> 'v frame" where
  "publish me var d f = (case new_dict d (mem f) of
     (a, m) \<Rightarrow> \<lparr>mem = m, ctx = dict_set var (CTuple [EIdent me, EDict a]) (ctx f)\<rparr>)"

definition local_setattr :: "tid \<Rightarrow> cvar \<Rightarrow> string \<Rightarrow> 'v \<Rightarrow> 'v frame \<Rightarrow> 'v frame assigned" where
  "local_setattr me var k v f = (if k \<in> set own_slots then OwnSlot
     else let data = (case owned_data me (dict_get (ctx f) var) of
                        Some a \<Rightarrow> dicts (mem f) a | None \<Rightarrow> [])
          in Stored (publish me var (dict_set k v data) f))"

definition local_delattr :: "tid \<Rightarrow> cvar \<Rightarrow> string \<Rightarrow> 'v frame \<Rightarrow> exn + 'v frame" where
  "local_delattr me var k f = (case owned_data me (dict_get (ctx f) var) of
     Some a \<Rightarrow> (if k \<in> set (dict_keys (dicts (mem f) a))
                then Inr (publish me var (dict_del k (dicts (mem f) a)) f)
                else Inl AttributeError)
   | None \<Rightarrow> Inl AttributeError)"

lemmas local_defs = local_getattr_def local_setattr_def local_delattr_def publish_def new_dict_def

text \<open>The attributes that a thread sees, as a map; and assignment as a total operation.\<close>

definition local_look :: "tid \<Rightarrow> cvar \<Rightarrow> 'v frame \<Rightarrow> string \<Rightarrow> 'v option" where
  "local_look me var f k = (case local_getattr me var k f of Inl _ \<Rightarrow> None | Inr v \<Rightarrow> Some v)"

definition local_put :: "tid \<Rightarrow> cvar \<Rightarrow> string \<Rightarrow> 'v \<Rightarrow> 'v frame \<Rightarrow> 'v frame" where
  "local_put me var k v f = (case local_setattr me var k v f of OwnSlot \<Rightarrow> f | Stored f' \<Rightarrow> f')"

lemma local_look_data:
  "local_look me var f = (case owned_data me (dict_get (ctx f) var) of
     None \<Rightarrow> Map.empty | Some a \<Rightarrow> dict_get (dicts (mem f) a))"
  by (auto simp: local_look_def local_getattr_def fun_eq_iff split: option.splits)

lemma local_look_publish: "local_look me var (publish me var d f) = dict_get d"
  by (simp add: local_look_data publish_def new_dict_def)

lemma local_look_iff:
  "local_getattr me var k f = (case local_look me var f k of None \<Rightarrow> Inl AttributeError | Some v \<Rightarrow> Inr v)"
  by (auto simp: local_look_data local_getattr_def split: option.splits)

interpretation local_attrs: attribute_store "\<lambda>k. k \<notin> set own_slots" "local_look me var"
  "local_put me var" "local_delattr me var" for me var
proof
  fix k :: string and v and s :: "'b frame"
  assume k: "k \<notin> set own_slots"
  then have put: "local_put me var k v s = publish me var (dict_set k v
      (case owned_data me (dict_get (ctx s) var) of Some a \<Rightarrow> dicts (mem s) a | None \<Rightarrow> [])) s"
    by (simp add: local_put_def local_setattr_def)
  show "local_look me var (local_put me var k v s) = (local_look me var s)(k \<mapsto> v)"
    by (simp add: put local_look_publish) (simp add: local_look_data split: option.splits)
  assume "local_look me var s k = None"
  then show "local_delattr me var k s = Inl AttributeError"
    by (auto simp: local_look_data local_delattr_def dict_keys_iff split: option.splits)
next
  fix k :: string and v and s :: "'b frame"
  assume "local_look me var s k = Some v"
  then obtain a where a: "owned_data me (dict_get (ctx s) var) = Some a"
    and v: "dict_get (dicts (mem s) a) k = Some v"
    by (auto simp: local_look_data split: option.splits)
  with a have "local_delattr me var k s = Inr (publish me var (dict_del k (dicts (mem s) a)) s)"
    by (auto simp: local_delattr_def dict_keys_iff)
  with a show "\<exists>s'. local_delattr me var k s = Inr s' \<and> local_look me var s' = (local_look me var s)(k := None)"
    by (simp add: local_look_publish) (simp add: local_look_data)
qed

section \<open>Copy on write\<close>

text \<open>
  \<open>mem_le m m'\<close>: every dictionary of \<open>m\<close> is unchanged in \<open>m'\<close>.
  \<open>ctxt_ok m c\<close>: the context refers to dictionaries of \<open>m\<close> only.
\<close>

definition mem_le :: "'v mem \<Rightarrow> 'v mem \<Rightarrow> bool" where
  "mem_le m m' \<longleftrightarrow> next_addr m \<le> next_addr m' \<and> (\<forall>a < next_addr m. dicts m' a = dicts m a)"

fun elem_ok :: "'v mem \<Rightarrow> 'v elem \<Rightarrow> bool" where
  "elem_ok m (EDict a) = (a < next_addr m)"
| "elem_ok m _ = True"

fun cval_ok :: "'v mem \<Rightarrow> 'v cval \<Rightarrow> bool" where
  "cval_ok m (CTuple xs) = list_all (elem_ok m) xs"
| "cval_ok m (CDict a) = (a < next_addr m)"
| "cval_ok m (CUser v) = True"

definition ctxt_ok :: "'v mem \<Rightarrow> 'v ctxt \<Rightarrow> bool" where
  "ctxt_ok m c = list_all (\<lambda>(x, v). cval_ok m v) c"

lemma mem_le_refl [simp]: "mem_le m m"
  by (simp add: mem_le_def)

lemma mem_le_trans: "mem_le m n \<Longrightarrow> mem_le n p \<Longrightarrow> mem_le m p"
  by (simp add: mem_le_def)

lemma mem_le_new_dict: "new_dict d m = (a, m') \<Longrightarrow> mem_le m m'"
  by (auto simp: mem_le_def new_dict_def)

lemma mem_le_publish: "mem_le (mem f) (mem (publish me var d f))"
  by (auto simp: publish_def new_dict_def mem_le_def)

lemma ctxt_ok_get: "ctxt_ok m c \<Longrightarrow> dict_get c x = Some v \<Longrightarrow> cval_ok m v"
  by (auto simp: ctxt_ok_def list_all_iff dest: map_of_SomeD)

lemma owned_data_ok:
  assumes "ctxt_ok m c" and "owned_data me (dict_get c var) = Some a"
  shows "a < next_addr m"
proof -
  from assms(2) obtain i where "dict_get c var = Some (CTuple [EIdent i, EDict a])"
    by (cases "(me, dict_get c var)" rule: owned_data.cases) (auto split: if_splits)
  with ctxt_ok_get [OF assms(1)] show ?thesis by fastforce
qed

lemma local_look_mem_le:
  assumes "mem_le m m'" and "ctxt_ok m c"
  shows "local_look me var \<lparr>mem = m', ctx = c\<rparr> = local_look me var \<lparr>mem = m, ctx = c\<rparr>"
  using assms owned_data_ok by (fastforce simp: local_look_data mem_le_def split: option.splits)

lemma local_setattr_mem: "local_setattr me var k v f = Stored f' \<Longrightarrow> mem_le (mem f) (mem f')"
  by (auto simp: local_setattr_def Let_def mem_le_publish split: if_splits)

lemma local_delattr_mem: "local_delattr me var k f = Inr f' \<Longrightarrow> mem_le (mem f) (mem f')"
  by (auto simp: local_delattr_def mem_le_publish split: if_splits option.splits)

section \<open>The storage of thread-critical locals in async threads\<close>

text \<open>
  \<open>_CVar\<close>: one context variable per async thread, holding a plain dict, without a tag. The
  object keeps the variable in its own attribute \<open>_data\<close>.
\<close>

definition cv_data :: "cvar \<Rightarrow> 'v frame \<Rightarrow> (string, 'v) dict" where
  "cv_data var f = (case dict_get (ctx f) var of Some (CDict a) \<Rightarrow> dicts (mem f) a | _ \<Rightarrow> [])"

definition cv_publish :: "cvar \<Rightarrow> (string, 'v) dict \<Rightarrow> 'v frame \<Rightarrow> 'v frame" where
  "cv_publish var d f = (case new_dict d (mem f) of
     (a, m) \<Rightarrow> \<lparr>mem = m, ctx = dict_set var (CDict a) (ctx f)\<rparr>)"

definition cv_getattr :: "cvar \<Rightarrow> string \<Rightarrow> 'v frame \<Rightarrow> exn + 'v" where
  "cv_getattr var k f = (case dict_get (cv_data var f) k of
     Some v \<Rightarrow> Inr v | None \<Rightarrow> Inl AttributeError)"

definition cv_setattr :: "cvar \<Rightarrow> string \<Rightarrow> 'v \<Rightarrow> 'v frame \<Rightarrow> 'v frame assigned" where
  "cv_setattr var k v f = (if k = ''_data'' then OwnSlot
     else Stored (cv_publish var (dict_set k v (cv_data var f)) f))"

definition cv_delattr :: "cvar \<Rightarrow> string \<Rightarrow> 'v frame \<Rightarrow> exn + 'v frame" where
  "cv_delattr var k f = (if k \<in> set (dict_keys (cv_data var f))
     then Inr (cv_publish var (dict_del k (cv_data var f)) f) else Inl AttributeError)"

definition cv_look :: "cvar \<Rightarrow> 'v frame \<Rightarrow> string \<Rightarrow> 'v option" where
  "cv_look var f k = (case cv_getattr var k f of Inl _ \<Rightarrow> None | Inr v \<Rightarrow> Some v)"

definition cv_put :: "cvar \<Rightarrow> string \<Rightarrow> 'v \<Rightarrow> 'v frame \<Rightarrow> 'v frame" where
  "cv_put var k v f = (case cv_setattr var k v f of OwnSlot \<Rightarrow> f | Stored f' \<Rightarrow> f')"

lemma cv_look_data: "cv_look var f = dict_get (cv_data var f)"
  by (auto simp: cv_look_def cv_getattr_def fun_eq_iff split: option.splits)

lemma cv_data_publish [simp]: "cv_data var (cv_publish var d f) = d"
  by (simp add: cv_data_def cv_publish_def new_dict_def)

lemma mem_le_cv_publish: "mem_le (mem f) (mem (cv_publish var d f))"
  by (auto simp: cv_publish_def new_dict_def mem_le_def)

interpretation cvar_attrs: attribute_store "\<lambda>k. k \<noteq> ''_data''" "cv_look var" "cv_put var"
  "cv_delattr var" for var
  by unfold_locales
    (auto simp: cv_look_data cv_put_def cv_setattr_def cv_delattr_def dict_keys_iff)

end
