(* ===== verification/Local_Critical.thy ===== *)
theory Local_Critical
  imports Local_Storage
begin

text \<open>
  \<open>Local(thread_critical=True)\<close>: the choice of storage by \<open>_thread_critical_storage\<close>, and
  the properties of both modes of \<open>Local\<close>.
\<close>

section \<open>State of one thread\<close>

text \<open>
  The attributes of this object's \<open>threading.local()\<close> in the current thread: user values,
  and under \<open>cvar\<close> the \<open>_CVar\<close> object that an access from an async thread creates.
  \<open>running\<close> says that \<open>asyncio.get_running_loop()\<close> returns in this thread;
  \<open>fresh_id\<close> numbers new context variables.
\<close>

datatype 'v slot = SUser 'v | SCVar cvar

record 'v critical =
  slots :: "(string, 'v slot) dict"
  tframe :: "'v frame"
  fresh_id :: nat

text \<open>
  What the storage lookup returns: the plain thread-local object, the \<open>_CVar\<close>, or, when user
  code has stored something under the name \<open>cvar\<close>, that user object.
\<close>

datatype 'v storage = Plain | Async cvar | UserObject 'v

definition critical_cvar_name :: string where
  "critical_cvar_name = ''asgiref.local.thread_critical''"

definition thread_critical_storage :: "bool \<Rightarrow> 'v critical \<Rightarrow> 'v storage \<times> 'v critical" where
  "thread_critical_storage running s = (if \<not> running then (Plain, s)
     else case dict_get (slots s) ''cvar'' of
       None \<Rightarrow> (let c = ContextVar critical_cvar_name (fresh_id s)
               in (Async c, s\<lparr>slots := dict_set ''cvar'' (SCVar c) (slots s), fresh_id := Suc (fresh_id s)\<rparr>))
     | Some (SCVar c) \<Rightarrow> (Async c, s)
     | Some (SUser v) \<Rightarrow> (UserObject v, s))"

text \<open>
  The result of an access: done, an \<open>AttributeError\<close>, an object of the implementation
  that user code should not see, or an access passed on to a user object.
\<close>

datatype ('v, 'r) access = Result 'r | NoAttribute | Internal cvar | PassedOn 'v

definition critical_getattr :: "bool \<Rightarrow> string \<Rightarrow> 'v critical \<Rightarrow> ('v, 'v) access \<times> 'v critical" where
  "critical_getattr running k s = (case thread_critical_storage running s of
     (Plain, s') \<Rightarrow> ((case dict_get (slots s') k of
         None \<Rightarrow> NoAttribute | Some (SUser v) \<Rightarrow> Result v | Some (SCVar c) \<Rightarrow> Internal c), s')
   | (Async c, s') \<Rightarrow> ((if k = ''_data'' then Internal c else case cv_getattr c k (tframe s') of
         Inl _ \<Rightarrow> NoAttribute | Inr v \<Rightarrow> Result v), s')
   | (UserObject u, s') \<Rightarrow> (PassedOn u, s'))"

definition critical_setattr :: "bool \<Rightarrow> string \<Rightarrow> 'v \<Rightarrow> 'v critical \<Rightarrow> ('v, unit) access \<times> 'v critical" where
  "critical_setattr running k v s = (case thread_critical_storage running s of
     (Plain, s') \<Rightarrow> (Result (), s'\<lparr>slots := dict_set k (SUser v) (slots s')\<rparr>)
   | (Async c, s') \<Rightarrow> (case cv_setattr c k v (tframe s') of
         OwnSlot \<Rightarrow> (Internal c, s') | Stored f \<Rightarrow> (Result (), s'\<lparr>tframe := f\<rparr>))
   | (UserObject u, s') \<Rightarrow> (PassedOn u, s'))"

definition critical_delattr :: "bool \<Rightarrow> string \<Rightarrow> 'v critical \<Rightarrow> ('v, unit) access \<times> 'v critical" where
  "critical_delattr running k s = (case thread_critical_storage running s of
     (Plain, s') \<Rightarrow> (if k \<in> set (dict_keys (slots s'))
         then (Result (), s'\<lparr>slots := dict_del k (slots s')\<rparr>) else (NoAttribute, s'))
   | (Async c, s') \<Rightarrow> (case cv_delattr c k (tframe s') of
         Inl _ \<Rightarrow> (NoAttribute, s') | Inr f \<Rightarrow> (Result (), s'\<lparr>tframe := f\<rparr>))
   | (UserObject u, s') \<Rightarrow> (PassedOn u, s'))"

lemmas critical_defs = thread_critical_storage_def critical_getattr_def critical_setattr_def
  critical_delattr_def

section \<open>The three operations of Local\<close>

text \<open>\<open>Local.__getattr__\<close> and its siblings choose the mode first.\<close>

record 'v local_state =
  critical :: "'v critical" \<comment> \<open>the frame is inside; the plain mode uses it too\<close>
  is_critical :: bool
  var :: cvar

definition plain_frame :: "'v local_state \<Rightarrow> 'v frame" where
  "plain_frame s = tframe (critical s)"

definition with_frame :: "'v frame \<Rightarrow> 'v local_state \<Rightarrow> 'v local_state" where
  "with_frame f s = s\<lparr>critical := (critical s)\<lparr>tframe := f\<rparr>\<rparr>"

definition getattr :: "tid \<Rightarrow> bool \<Rightarrow> string \<Rightarrow> 'v local_state \<Rightarrow> ('v, 'v) access \<times> 'v local_state" where
  "getattr me running k s = (if is_critical s
     then (case critical_getattr running k (critical s) of (r, c) \<Rightarrow> (r, s\<lparr>critical := c\<rparr>))
     else (case local_getattr me (var s) k (plain_frame s) of
        Inl _ \<Rightarrow> (NoAttribute, s) | Inr v \<Rightarrow> (Result v, s)))"

definition setattr :: "tid \<Rightarrow> bool \<Rightarrow> string \<Rightarrow> 'v \<Rightarrow> 'v local_state \<Rightarrow> ('v, unit) access \<times> 'v local_state" where
  "setattr me running k v s = (if k \<in> set own_slots then (Internal (var s), s)
     else if is_critical s
     then (case critical_setattr running k v (critical s) of (r, c) \<Rightarrow> (r, s\<lparr>critical := c\<rparr>))
     else (case local_setattr me (var s) k v (plain_frame s) of
        OwnSlot \<Rightarrow> (Internal (var s), s) | Stored f \<Rightarrow> (Result (), with_frame f s)))"

definition delattr :: "tid \<Rightarrow> bool \<Rightarrow> string \<Rightarrow> 'v local_state \<Rightarrow> ('v, unit) access \<times> 'v local_state" where
  "delattr me running k s = (if is_critical s
     then (case critical_delattr running k (critical s) of (r, c) \<Rightarrow> (r, s\<lparr>critical := c\<rparr>))
     else (case local_delattr me (var s) k (plain_frame s) of
        Inl _ \<Rightarrow> (NoAttribute, s) | Inr f \<Rightarrow> (Result (), with_frame f s)))"

section \<open>Properties of the shared mode\<close>

text \<open>Published snapshots are immutable. Setting or deleting an attribute never changes what
  any thread reads, for any \<open>Local\<close>, in any other context that was alive before: the context of
  another task, a copy taken earlier, or the context a parent kept.\<close>

theorem snapshots_are_immutable:
  assumes "ctxt_ok (mem f) c"
    and "local_setattr me x k v f = Stored f' \<or> local_delattr me x k f = Inr f'"
  shows "local_look other y (f'\<lparr>ctx := c\<rparr>) = local_look other y (f\<lparr>ctx := c\<rparr>)"
proof -
  have "mem_le (mem f) (mem f')"
    using assms(2) by (auto dest: local_setattr_mem local_delattr_mem)
  from local_look_mem_le [OF this assms(1), of other y] show ?thesis
    by (cases f, cases f') simp
qed

text \<open>Inherited data is invisible. A thread whose context carries storage tagged with another
  thread (a context copied at thread start) reads no attribute, cannot delete one, and its first
  assignment starts from an empty namespace.\<close>

theorem inherited_data_is_invisible:
  assumes "dict_get (ctx f) x = Some (CTuple [EIdent other, EDict a])" and "other \<noteq> me"
    and "k \<notin> set own_slots"
  shows "local_look me x f = Map.empty \<and> local_delattr me x j f = Inl AttributeError \<and>
    local_look me x (local_put me x k v f) = [k \<mapsto> v]"
proof -
  have "local_look me x f = Map.empty" using assms(1,2) by (simp add: local_look_data)
  with assms show ?thesis by (simp add: local_delattr_def local_attrs.look_put)
qed

definition demo_var :: cvar where
  "demo_var = ContextVar local_cvar_name 0"

definition demo_frame :: "int frame" where
  "demo_frame = local_put 1 demo_var ''user'' 7 \<lparr>mem = \<lparr>dicts = (\<lambda>_. []), next_addr = 0\<rparr>, ctx = []\<rparr>"

lemma demo_frame_eq:
  "demo_frame = \<lparr>mem = \<lparr>dicts = (\<lambda>_. [])(0 := [(''user'', 7)]), next_addr = 1\<rparr>,
     ctx = [(demo_var, CTuple [EIdent 1, EDict 0])]\<rparr>"
  by (simp add: demo_frame_def local_put_def local_defs own_slots_def)

theorem snapshots_are_immutable_witness:
  "local_look 1 demo_var (local_put 1 demo_var ''user'' 8 demo_frame\<lparr>ctx := ctx demo_frame\<rparr>) =
     local_look 1 demo_var demo_frame"
proof -
  let ?f = "local_put 1 demo_var ''user'' 8 demo_frame"
  have c: "ctxt_ok (mem demo_frame) (ctx demo_frame)"
    by (simp add: demo_frame_eq ctxt_ok_def)
  have "local_setattr 1 demo_var ''user'' 8 demo_frame = Stored ?f"
    by (simp add: local_put_def local_setattr_def own_slots_def Let_def)
  from snapshots_are_immutable [OF c disjI1, OF this, of 1 demo_var] show ?thesis
    by (simp add: demo_frame_eq)
qed

theorem inherited_data_is_invisible_witness:
  "local_look 2 demo_var demo_frame = Map.empty \<and>
     local_look 2 demo_var (local_put 2 demo_var ''k'' 5 demo_frame) = [''k'' \<mapsto> 5]"
  using inherited_data_is_invisible [of demo_frame demo_var 1 0 2 "''k''" _ 5]
  by (simp add: demo_frame_eq own_slots_def)

text \<open>A \<open>Local\<close> is a namespace. On the thread that owns it, an attribute reads back what was
  assigned, other attributes are unchanged, and deleting it restores the reads from before the
  assignment when the attribute was absent.\<close>

theorem local_is_a_namespace:
  assumes "k \<notin> set own_slots"
  shows "local_look me x (local_put me x k v f) = (local_look me x f)(k \<mapsto> v) \<and>
    (\<exists>f'. local_delattr me x k (local_put me x k v f) = Inr f' \<and>
       local_look me x f' = (local_look me x f)(k := None) \<and>
       local_delattr me x k f' = Inl AttributeError)"
proof -
  obtain f' where f': "local_delattr me x k (local_put me x k v f) = Inr f'"
    "local_look me x f' = (local_look me x f)(k := None)"
    using local_attrs.del_put [OF assms, of me x v f] by blast
  from local_attrs.del_twice [OF assms f'(1)] f' local_attrs.look_put [OF assms, of me x v f]
  show ?thesis by blast
qed

theorem local_is_a_namespace_witness:
  "\<exists>f'. local_delattr 1 demo_var ''user'' (local_put 1 demo_var ''user'' 9 demo_frame) = Inr f' \<and>
     local_delattr 1 demo_var ''user'' f' = Inl AttributeError"
  using local_is_a_namespace [of "''user''" 1 demo_var 9 demo_frame] by (auto simp: own_slots_def)

section \<open>Properties of the thread-critical mode\<close>

text \<open>
  \<open>critical_ok\<close>: user code has not stored anything under the name \<open>cvar\<close>, so the storage
  of an async access is a \<open>_CVar\<close>.
\<close>

definition critical_ok :: "'v critical \<Rightarrow> bool" where
  "critical_ok s \<longleftrightarrow> (\<forall>v. dict_get (slots s) ''cvar'' \<noteq> Some (SUser v))"

lemma async_storage:
  assumes "critical_ok s"
  obtains c s' where "thread_critical_storage True s = (Async c, s')" and "tframe s' = tframe s"
    and "dict_get (slots s') = (dict_get (slots s))(''cvar'' \<mapsto> SCVar c)"
proof (cases "dict_get (slots s) ''cvar''")
  case None
  then have "thread_critical_storage True s = (Async (ContextVar critical_cvar_name (fresh_id s)),
      s\<lparr>slots := dict_set ''cvar'' (SCVar (ContextVar critical_cvar_name (fresh_id s))) (slots s),
        fresh_id := Suc (fresh_id s)\<rparr>)"
    by (simp add: thread_critical_storage_def Let_def)
  then show ?thesis by (rule that) simp_all
next
  case (Some a)
  with assms obtain c where "a = SCVar c" by (cases a) (auto simp: critical_ok_def)
  with Some show ?thesis by (intro that) (auto simp: thread_critical_storage_def)
qed

text \<open>Thread-critical data of sync and async code in one thread is kept apart. What sync code
  stored is not changed by an async assignment, and what async code reads is not changed by a sync
  assignment.\<close>

theorem critical_modes_are_separate:
  assumes "critical_ok s" and "k \<noteq> ''cvar''" and "k \<noteq> ''_data''" and "j \<noteq> ''cvar''"
  shows "fst (critical_getattr False j (snd (critical_setattr True k v s))) = fst (critical_getattr False j s)
    \<and> fst (critical_getattr True j (snd (critical_setattr False k v s))) = fst (critical_getattr True j s)"
proof -
  obtain c s' where st: "thread_critical_storage True s = (Async c, s')" "tframe s' = tframe s"
    "dict_get (slots s') = (dict_get (slots s))(''cvar'' \<mapsto> SCVar c)"
    using async_storage [OF assms(1)] by blast
  with assms have "fst (critical_getattr False j (snd (critical_setattr True k v s))) =
      fst (critical_getattr False j s)"
    by (auto simp: critical_setattr_def critical_getattr_def thread_critical_storage_def cv_setattr_def)
  moreover have "fst (critical_getattr True j (snd (critical_setattr False k v s))) =
      fst (critical_getattr True j s)"
    using assms by (auto simp: critical_defs Let_def split: option.splits slot.splits)
  ultimately show ?thesis ..
qed

theorem critical_modes_are_separate_witness:
  "fst (critical_getattr False ''k'' (snd (critical_setattr True ''k'' 5
     \<lparr>slots = [(''k'', SUser (3 :: int))], tframe = demo_frame, fresh_id = 4\<rparr>))) = Result 3"
  using critical_modes_are_separate
    [of "\<lparr>slots = [(''k'', SUser (3 :: int))], tframe = demo_frame, fresh_id = 4\<rparr>" "''k''" "''k''" 5]
  by (simp add: critical_ok_def critical_getattr_def thread_critical_storage_def)

text \<open>In an async thread a thread-critical \<open>Local\<close> reads back what was assigned there.\<close>

theorem critical_async_reads_back:
  assumes "critical_ok s" and "k \<noteq> ''_data''" and "j \<noteq> ''_data''"
  shows "fst (critical_getattr True j (snd (critical_setattr True k v s))) =
    (if j = k then Result v else fst (critical_getattr True j s))"
proof -
  obtain c s' where st: "thread_critical_storage True s = (Async c, s')" "tframe s' = tframe s"
    "dict_get (slots s') = (dict_get (slots s))(''cvar'' \<mapsto> SCVar c)"
    using async_storage [OF assms(1)] by blast
  then have again: "thread_critical_storage True (s'\<lparr>tframe := f\<rparr>) = (Async c, s'\<lparr>tframe := f\<rparr>)" for f
    by (simp add: thread_critical_storage_def)
  show ?thesis
    using st again assms
    by (simp add: critical_setattr_def critical_getattr_def cv_setattr_def cv_getattr_def)
qed

theorem critical_async_reads_back_witness:
  "fst (critical_getattr True ''k'' (snd (critical_setattr True ''k'' 5
     \<lparr>slots = [], tframe = demo_frame, fresh_id = 4\<rparr>))) = Result 5"
  using critical_async_reads_back [of "\<lparr>slots = [], tframe = demo_frame, fresh_id = 4\<rparr>" "''k''" "''k''" 5]
  by (simp add: critical_ok_def)

text \<open>The name \<open>cvar\<close> is not available to users of a thread-critical \<open>Local\<close>: after
  sync code assigns it, every access to any attribute from an async frame of the same thread goes to
  the assigned object instead of the storage.\<close>

theorem critical_cvar_name_clash:
  "fst (critical_getattr True j (snd (critical_setattr False ''cvar'' v s))) = PassedOn v"
  by (simp add: critical_setattr_def critical_getattr_def thread_critical_storage_def)

end
