(* ===== verification/Context_Restore.thy ===== *)
theory Context_Restore
  imports Local_Critical
begin

text \<open>
  \<open>_restore_context\<close> of \<open>asgiref/sync.py\<close>: copying the variables of a finished context
  into the current one, with the storage of \<open>Local\<close> re-homed to the current thread.
\<close>

section \<open>Equality of stored values\<close>

text \<open>
  \<open>cvar.get() != cvalue\<close> compares values with Python's \<open>==\<close>: tuples and dicts by their
  contents, and user values by \<open>veq\<close>, a parameter (user classes define their own equality).
\<close>

fun entry_eq :: "('v \<Rightarrow> 'v \<Rightarrow> bool) \<Rightarrow> 'v option \<Rightarrow> 'v option \<Rightarrow> bool" where
  "entry_eq veq (Some v) (Some w) = veq v w"
| "entry_eq veq None None = True"
| "entry_eq veq _ _ = False"

definition dict_eq :: "('v \<Rightarrow> 'v \<Rightarrow> bool) \<Rightarrow> (string, 'v) dict \<Rightarrow> (string, 'v) dict \<Rightarrow> bool" where
  "dict_eq veq d e \<longleftrightarrow> length d = length e \<and>
     (\<forall>k \<in> set (dict_keys d). entry_eq veq (dict_get d k) (dict_get e k))"

fun elem_eq :: "('v \<Rightarrow> 'v \<Rightarrow> bool) \<Rightarrow> 'v mem \<Rightarrow> 'v elem \<Rightarrow> 'v elem \<Rightarrow> bool" where
  "elem_eq veq m (EIdent i) (EIdent j) = (i = j)"
| "elem_eq veq m (EDict a) (EDict b) = dict_eq veq (dicts m a) (dicts m b)"
| "elem_eq veq m (EUser v) (EUser w) = veq v w"
| "elem_eq veq m _ _ = False"

fun cval_eq :: "('v \<Rightarrow> 'v \<Rightarrow> bool) \<Rightarrow> 'v mem \<Rightarrow> 'v cval \<Rightarrow> 'v cval \<Rightarrow> bool" where
  "cval_eq veq m (CTuple xs) (CTuple ys) = list_all2 (elem_eq veq m) xs ys"
| "cval_eq veq m (CDict a) (CDict b) = dict_eq veq (dicts m a) (dicts m b)"
| "cval_eq veq m (CUser v) (CUser w) = veq v w"
| "cval_eq veq m _ _ = False"

section \<open>The loop\<close>

text \<open>The value the loop wants to store: re-homed for tuples under the name of \<open>Local\<close>'s variables.\<close>

definition moved_value :: "tid \<Rightarrow> cvar \<Rightarrow> 'v cval \<Rightarrow> exn + 'v cval" where
  "moved_value me x v = (if cvar_name x = local_cvar_name
     then (case v of
        CTuple storage \<Rightarrow> (case rehome me storage of Inl e \<Rightarrow> Inl e | Inr st \<Rightarrow> Inr (CTuple st))
      | _ \<Rightarrow> Inr v)
     else Inr v)"

definition restore_one :: "('v \<Rightarrow> 'v \<Rightarrow> bool) \<Rightarrow> tid \<Rightarrow> 'v mem \<Rightarrow> cvar \<Rightarrow> 'v cval \<Rightarrow> ('v ctxt, unit) py" where
  "restore_one veq me m x v = (case moved_value me x v of
     Inl e \<Rightarrow> py_raise e
   | Inr w \<Rightarrow> (\<lambda>cur. case dict_get cur x of
        None \<Rightarrow> (Inr (), dict_set x w cur)
      | Some u \<Rightarrow> if \<not> cval_eq veq m u w then (Inr (), dict_set x w cur) else (Inr (), cur)))"

fun restore_context :: "('v \<Rightarrow> 'v \<Rightarrow> bool) \<Rightarrow> tid \<Rightarrow> 'v mem \<Rightarrow> 'v ctxt \<Rightarrow> ('v ctxt, unit) py" where
  "restore_context veq me m [] = py_return ()"
| "restore_context veq me m ((x, v) # rest) =
     py_bind (restore_one veq me m x v) (\<lambda>_. restore_context veq me m rest)"

section \<open>What the loop leaves\<close>

text \<open>
  \<open>movable\<close>: no foreign variable under \<open>Local\<close>'s name holds a tuple of fewer than two
  elements, on which \<open>_rehome\<close> would raise \<open>IndexError\<close>.
\<close>

definition movable :: "'v ctxt \<Rightarrow> bool" where
  "movable c = list_all (\<lambda>(x, v). case v of
     CTuple st \<Rightarrow> cvar_name x = local_cvar_name \<longrightarrow> 2 \<le> length st | _ \<Rightarrow> True) c"

definition moved :: "tid \<Rightarrow> cvar \<Rightarrow> 'v cval \<Rightarrow> 'v cval" where
  "moved me x v = (case moved_value me x v of Inl _ \<Rightarrow> v | Inr w \<Rightarrow> w)"

definition settled :: "('v \<Rightarrow> 'v \<Rightarrow> bool) \<Rightarrow> 'v mem \<Rightarrow> 'v cval option \<Rightarrow> 'v cval \<Rightarrow> 'v cval" where
  "settled veq m old w = (case old of
     None \<Rightarrow> w | Some u \<Rightarrow> if cval_eq veq m u w then u else w)"

lemma moved_value_movable:
  "movable ((x, v) # c) \<Longrightarrow> moved_value me x v = Inr (moved me x v)"
  by (auto simp: movable_def moved_def moved_value_def rehome_def
      split: cval.splits list.splits if_splits sum.splits)

lemma movable_Cons: "movable (p # c) \<Longrightarrow> movable c"
  by (simp add: movable_def)

lemma restore_one_movable:
  assumes "movable ((x, v) # c)"
  shows "\<exists>cur'. restore_one veq me m x v cur = (Inr (), cur') \<and>
    dict_get cur' = (dict_get cur)(x \<mapsto> settled veq m (dict_get cur x) (moved me x v)) \<and>
    (dict_ok cur \<longrightarrow> dict_ok cur')"
  using moved_value_movable [OF assms]
  by (cases "dict_get cur x") (auto simp: restore_one_def settled_def)

lemma restore_context_get:
  assumes "movable src" and "dict_ok src"
  shows "\<exists>cur'. restore_context veq me m src cur = (Inr (), cur') \<and> (dict_ok cur \<longrightarrow> dict_ok cur') \<and>
    dict_get cur' = (\<lambda>x. case dict_get src x of
        None \<Rightarrow> dict_get cur x
      | Some v \<Rightarrow> Some (settled veq m (dict_get cur x) (moved me x v)))"
  using assms
proof (induction src arbitrary: cur)
  case Nil
  then show ?case by (simp add: py_return_def)
next
  case (Cons p src)
  obtain x v where p: "p = (x, v)" by (cases p)
  obtain cur1 where one: "restore_one veq me m x v cur = (Inr (), cur1)"
    "dict_get cur1 = (dict_get cur)(x \<mapsto> settled veq m (dict_get cur x) (moved me x v))"
    "dict_ok cur \<longrightarrow> dict_ok cur1"
    using restore_one_movable Cons.prems(1) p by blast
  have x: "dict_get src x = None"
    using Cons.prems(2) p by (auto simp: dict_ok_def map_of_eq_None_iff)
  obtain cur2 where two: "restore_context veq me m src cur1 = (Inr (), cur2)"
    "dict_ok cur1 \<longrightarrow> dict_ok cur2"
    "dict_get cur2 = (\<lambda>x. case dict_get src x of
        None \<Rightarrow> dict_get cur1 x
      | Some v \<Rightarrow> Some (settled veq m (dict_get cur1 x) (moved me x v)))"
    using Cons.IH [of cur1, OF movable_Cons [OF Cons.prems(1)]] Cons.prems(2)
    by (auto simp: dict_ok_def)
  have "restore_context veq me m (p # src) cur = (Inr (), cur2)"
    using one(1) two(1) p by (simp add: py_bind_def)
  moreover have "dict_get cur2 = (\<lambda>y. case dict_get (p # src) y of
        None \<Rightarrow> dict_get cur y
      | Some v \<Rightarrow> Some (settled veq m (dict_get cur y) (moved me y v)))"
    using x by (auto simp: two(3) one(2) p fun_eq_iff split: option.splits)
  ultimately show ?case using one(3) two(2) by blast
qed

lemma restore_context_returns:
  assumes "movable src" and "dict_ok src"
  shows "fst (restore_context veq me m src cur) = Inr ()"
  using restore_context_get [OF assms, of veq me m cur] by auto

lemma restore_context_get_eq:
  assumes "movable src" and "dict_ok src"
  shows "dict_get (snd (restore_context veq me m src cur)) x = (case dict_get src x of
      None \<Rightarrow> dict_get cur x
    | Some v \<Rightarrow> Some (settled veq m (dict_get cur x) (moved me x v)))"
  using restore_context_get [OF assms, of veq me m cur] by auto

section \<open>Storage of Local across a restore\<close>

lemma moved_local [simp]:
  "cvar_name x = local_cvar_name \<Longrightarrow> moved me x (CTuple (a # b # st)) = CTuple [EIdent me, b]"
  by (simp add: moved_def moved_value_def rehome_def)

lemma moved_other [simp]: "cvar_name x \<noteq> local_cvar_name \<Longrightarrow> moved me x v = v"
  by (simp add: moved_def moved_value_def)

text \<open>
  Two attribute maps that agree up to \<open>veq\<close>: the same names, with equal values.
\<close>

definition look_eq :: "('v \<Rightarrow> 'v \<Rightarrow> bool) \<Rightarrow> (string \<Rightarrow> 'v option) \<Rightarrow> (string \<Rightarrow> 'v option) \<Rightarrow> bool" where
  "look_eq veq f g \<longleftrightarrow> (\<forall>k. entry_eq veq (f k) (g k))"

lemma entry_eq_refl: "reflp veq \<Longrightarrow> entry_eq veq o1 o1"
  by (cases o1) (auto dest: reflpD)

lemma look_eq_refl: "reflp veq \<Longrightarrow> look_eq veq f f"
  by (simp add: look_eq_def entry_eq_refl)

lemma dict_eq_look:
  assumes "dict_eq veq d e" and "dict_ok d" and "dict_ok e"
  shows "look_eq veq (dict_get d) (dict_get e)"
proof -
  have sub: "set (dict_keys d) \<subseteq> set (dict_keys e)"
  proof
    fix k assume k: "k \<in> set (dict_keys d)"
    then obtain v where v: "dict_get d k = Some v" using dict_keys_iff [of k d] by auto
    from k assms(1) have "entry_eq veq (dict_get d k) (dict_get e k)"
      unfolding dict_eq_def by blast
    then obtain w where "dict_get e k = Some w"
      using v by (cases "dict_get e k") auto
    then show "k \<in> set (dict_keys e)" using dict_keys_iff [of k e] by auto
  qed
  have "card (set (dict_keys d)) = card (set (dict_keys e))"
    using assms by (simp add: dict_eq_def dict_ok_def distinct_card del: set_map)
  then have same: "set (dict_keys d) = set (dict_keys e)"
    using sub by (simp add: card_subset_eq)
  show ?thesis unfolding look_eq_def
  proof
    fix k
    show "entry_eq veq (dict_get d k) (dict_get e k)"
    proof (cases "k \<in> set (dict_keys d)")
      case True
      with assms(1) show ?thesis unfolding dict_eq_def by blast
    next
      case False
      with same have "k \<notin> set (dict_keys e)" by blast
      with False have "dict_get d k = None" "dict_get e k = None"
        by (simp_all add: map_of_eq_None_iff)
      then show ?thesis by simp
    qed
  qed
qed

lemma settled_local:
  assumes "reflp veq" and "\<forall>b. dict_ok (dicts m b)"
    and "settled veq m old (CTuple [EIdent me, EDict a]) = w"
  shows "\<exists>b. w = CTuple [EIdent me, EDict b] \<and> look_eq veq (dict_get (dicts m b)) (dict_get (dicts m a))"
proof (cases "old = Some w \<and> cval_eq veq m w (CTuple [EIdent me, EDict a])")
  case False
  with assms(3) have "w = CTuple [EIdent me, EDict a]"
    by (auto simp: settled_def split: option.splits if_splits)
  then show ?thesis by (simp add: look_eq_refl assms(1))
next
  case True
  then obtain st where "w = CTuple st" and "list_all2 (elem_eq veq m) st [EIdent me, EDict a]"
    by (cases w) auto
  then obtain p q where w: "w = CTuple [p, q]" and "elem_eq veq m p (EIdent me)"
    and "elem_eq veq m q (EDict a)"
    by (auto simp: list_all2_Cons2)
  then obtain b where "p = EIdent me" "q = EDict b" "dict_eq veq (dicts m b) (dicts m a)"
    by (cases p; cases q) auto
  with w dict_eq_look assms(2) show ?thesis by blast
qed

lemma restore_local_look:
  assumes "reflp veq" and "\<forall>b. dict_ok (dicts m b)" and "movable src" and "dict_ok src"
    and "cvar_name x = local_cvar_name" and "dict_get src x = Some (CTuple [EIdent other, EDict a])"
  shows "look_eq veq (local_look me x \<lparr>mem = m, ctx = snd (restore_context veq me m src cur)\<rparr>)
    (dict_get (dicts m a))"
proof -
  have "dict_get (snd (restore_context veq me m src cur)) x =
      Some (settled veq m (dict_get cur x) (CTuple [EIdent me, EDict a]))"
    using assms by (simp add: restore_context_get_eq)
  moreover obtain b where "settled veq m (dict_get cur x) (CTuple [EIdent me, EDict a]) =
      CTuple [EIdent me, EDict b]" and "look_eq veq (dict_get (dicts m b)) (dict_get (dicts m a))"
    using settled_local [OF assms(1,2)] by blast
  ultimately show ?thesis by (simp add: local_look_data)
qed

section \<open>Properties\<close>

text \<open>\<open>_restore_context\<close> makes moved \<open>Local\<close> data visible. After restoring a context in
  which a \<open>Local\<close> holds data of any thread, the current thread reads exactly the attributes of
  that data, with equal values.\<close>

theorem restore_moves_local_data:
  assumes "reflp veq" and "\<forall>b. dict_ok (dicts m b)" and "movable src" and "dict_ok src"
    and "cvar_name x = local_cvar_name" and "dict_get src x = Some (CTuple [EIdent other, EDict a])"
  shows "look_eq veq (local_look me x \<lparr>mem = m, ctx = snd (restore_context veq me m src cur)\<rparr>)
    (dict_get (dicts m a))"
  using assms by (rule restore_local_look)

theorem restore_moves_local_data_witness:
  "look_eq (=) (local_look 2 demo_var \<lparr>mem = mem demo_frame,
     ctx = snd (restore_context (=) 2 (mem demo_frame) (ctx demo_frame) [])\<rparr>) [''user'' \<mapsto> 7]"
proof -
  have "\<forall>b. dict_ok (dicts (mem demo_frame) b)" by (simp add: demo_frame_eq dict_ok_def)
  moreover have "movable (ctx demo_frame)" "dict_ok (ctx demo_frame)"
    by (simp_all add: demo_frame_eq movable_def dict_ok_def)
  moreover have "cvar_name demo_var = local_cvar_name" by (simp add: demo_var_def)
  moreover have "dict_get (ctx demo_frame) demo_var = Some (CTuple [EIdent 1, EDict 0])"
    by (simp add: demo_frame_eq)
  ultimately have "look_eq (=) (local_look 2 demo_var \<lparr>mem = mem demo_frame,
      ctx = snd (restore_context (=) 2 (mem demo_frame) (ctx demo_frame) [])\<rparr>)
      (dict_get (dicts (mem demo_frame) 0))"
    by (intro restore_moves_local_data) simp_all
  then show ?thesis by (simp add: demo_frame_eq)
qed

text \<open>What \<open>_restore_context\<close> leaves, for every variable. It returns; a variable the source
  does not set keeps its value; a variable the source sets ends with the source's (re-homed) value,
  or with the old one where the two compare equal. In particular the order in which the source
  is iterated does not matter.\<close>

theorem restore_context_effect:
  assumes "movable src" and "dict_ok src"
  shows "fst (restore_context veq me m src cur) = Inr () \<and>
    (\<forall>x. dict_get (snd (restore_context veq me m src cur)) x = (case dict_get src x of
        None \<Rightarrow> dict_get cur x
      | Some v \<Rightarrow> Some (settled veq m (dict_get cur x) (moved me x v))))"
  using assms by (simp add: restore_context_returns restore_context_get_eq)

theorem restore_context_effect_witness:
  "fst (restore_context (=) 2 (mem demo_frame) (ctx demo_frame) []) = Inr ()"
  using restore_context_effect [of "ctx demo_frame" "(=)" 2 "mem demo_frame" "[]"]
  by (simp add: demo_frame_eq movable_def dict_ok_def)

text \<open>The iteration order of the source context is irrelevant.\<close>

theorem restore_order_irrelevant:
  assumes "movable src" and "dict_ok src" and "movable src'" and "dict_ok src'"
    and "dict_get src' = dict_get src"
  shows "dict_get (snd (restore_context veq me m src' cur)) = dict_get (snd (restore_context veq me m src cur))"
  using assms by (simp add: restore_context_get_eq fun_eq_iff)

theorem restore_order_irrelevant_witness:
  "dict_get (snd (restore_context (=) 2 (mem demo_frame)
       [(ContextVar ''a'' 1, CUser 5), (demo_var, CTuple [EIdent 1, EDict 0])] [])) =
   dict_get (snd (restore_context (=) 2 (mem demo_frame)
       [(demo_var, CTuple [EIdent 1, EDict 0]), (ContextVar ''a'' 1, CUser 5)] []))"
  by (rule restore_order_irrelevant)
    (auto simp: movable_def dict_ok_def demo_var_def local_cvar_name_def fun_eq_iff)

text \<open>The comparison before the assignment is by value, so an equal but different object in
  the current context is kept: the object that the finished context held is not the one that the
  current thread reads afterwards. (Values here are pairs of a value and an object identity, and
  equality looks at the value.)\<close>

theorem restore_keeps_equal_object:
  "local_look 1 demo_var \<lparr>mem = \<lparr>dicts = (\<lambda>_. [])(0 := [(''x'', (5, 100))], 1 := [(''x'', (5, 200))]), next_addr = 2\<rparr>,
     ctx = snd (restore_context (\<lambda>v w. fst v = (fst w :: int)) 1
       \<lparr>dicts = (\<lambda>_. [])(0 := [(''x'', (5, 100))], 1 := [(''x'', (5, 200 :: nat))]), next_addr = 2\<rparr>
       [(demo_var, CTuple [EIdent 2, EDict 1])] [(demo_var, CTuple [EIdent 1, EDict 0])])\<rparr> ''x'' = Some (5, 100)"
  by (simp add: local_look_data py_simps restore_one_def moved_value_def rehome_def demo_var_def
      local_cvar_name_def dict_eq_def)

text \<open>A foreign context variable that happens to be called like \<open>Local\<close>'s and holds a tuple
  is not left alone: a pair is rewritten to start with the thread's identifier, and a shorter tuple
  makes the whole restore raise \<open>IndexError\<close>. Values other than tuples are copied as they are.\<close>

theorem restore_foreign_variable:
  assumes "cvar_name x = local_cvar_name"
  shows "restore_context veq me m [(x, CTuple [])] cur = (Inl IndexError, cur) \<and>
    restore_context veq me m [(x, CTuple [EUser u])] cur = (Inl IndexError, cur) \<and>
    dict_get (snd (restore_context veq me m [(x, CTuple [EUser u, EUser v])] [])) x =
      Some (CTuple [EIdent me, EUser v]) \<and>
    dict_get (snd (restore_context veq me m [(x, CUser v)] [])) x = Some (CUser v)"
  using assms by (simp add: py_simps restore_one_def moved_value_def rehome_def)

theorem restore_foreign_variable_witness:
  "restore_context (=) 3 (mem demo_frame) [(ContextVar local_cvar_name 9, CTuple [])] [] = (Inl IndexError, [])"
  using restore_foreign_variable [of "ContextVar local_cvar_name 9" "(=)" 3 "mem demo_frame" "[]"] by simp

end
