(* ===== verification/Sync_Contexts.thy ===== *)
theory Sync_Contexts
  imports Futures
begin

text \<open>
  The context managers of \<open>asgiref/sync.py\<close>: \<open>AsyncSingleThreadContext\<close> and
  \<open>ThreadSensitiveContext\<close>, and the executor that a context hands to the calls inside it.
  Both keep a context variable with the outermost manager and a weak dictionary from managers to
  executors, so they share one state type and one contract.
\<close>

section \<open>State\<close>

type_synonym obj = nat \<comment> \<open>a context manager instance\<close>
type_synonym pool = nat \<comment> \<open>a \<open>ThreadPoolExecutor\<close>\<close>
type_synonym token = nat \<comment> \<open>what \<open>ContextVar.set\<close> returns\<close>

text \<open>
  \<open>cur\<close> is the value of the context variable, \<open>token\<close> the attribute \<open>self.token\<close> of
  each manager. A token remembers the value to restore and can be used once. \<open>handed\<close> records
  the executors given to calls, \<open>shut\<close> the executors that were shut down.
\<close>

record mgr =
  cur :: "obj option"
  token :: "obj \<Rightarrow> token option"
  old_value :: "token \<Rightarrow> obj option"
  used_tokens :: "token list"
  next_token :: token
  to_executor :: "obj \<Rightarrow> pool option"
  next_pool :: pool
  handed :: "pool list"
  shut :: "pool list"

definition new_mgr :: mgr where
  "new_mgr = \<lparr>cur = None, token = (\<lambda>_. None), old_value = (\<lambda>_. None), used_tokens = [],
     next_token = 0, to_executor = (\<lambda>_. None), next_pool = 0, handed = [], shut = []\<rparr>"

section \<open>Context variables\<close>

definition var_set :: "obj \<Rightarrow> mgr \<Rightarrow> token \<times> mgr" where
  "var_set x s = (next_token s, s\<lparr>cur := Some x, next_token := Suc (next_token s),
     old_value := (old_value s)(next_token s := cur s)\<rparr>)"

text \<open>\<open>ContextVar.reset\<close> raises \<open>RuntimeError\<close> for a token that was used.\<close>

definition var_reset :: "token \<Rightarrow> (mgr, unit) py" where
  "var_reset k = (\<lambda>s. if k \<in> set (used_tokens s) then (Inl RuntimeError, s)
     else (Inr (), s\<lparr>cur := old_value s k, used_tokens := k # used_tokens s\<rparr>))"

section \<open>Entering and leaving\<close>

definition pop_executor :: "obj \<Rightarrow> mgr \<Rightarrow> pool option \<times> mgr" where
  "pop_executor x s = (to_executor s x, s\<lparr>to_executor := (to_executor s)(x := None)\<rparr>)"

definition shutdown :: "pool \<Rightarrow> mgr \<Rightarrow> mgr" where
  "shutdown e s = s\<lparr>shut := shut s @ [e]\<rparr>"

definition single_thread_enter :: "obj \<Rightarrow> (mgr, unit) py" where
  "single_thread_enter self = (\<lambda>s. case cur s of
     Some _ \<Rightarrow> (Inr (), s)
   | None \<Rightarrow> (case var_set self s of (k, s') \<Rightarrow> (Inr (), s'\<lparr>token := (token s')(self \<mapsto> k)\<rparr>)))"

definition single_thread_exit :: "obj \<Rightarrow> (mgr, unit) py" where
  "single_thread_exit self = (\<lambda>s. case token s self of
     None \<Rightarrow> (Inr (), s)
   | Some k \<Rightarrow> (case pop_executor self s of (executor, s') \<Rightarrow>
       var_reset k (case executor of Some e \<Rightarrow> shutdown e s' | None \<Rightarrow> s')))"

definition thread_sensitive_enter :: "obj \<Rightarrow> (mgr, unit) py" where
  "thread_sensitive_enter self = (\<lambda>s. case cur s of
     Some _ \<Rightarrow> (Inr (), s)
   | None \<Rightarrow> (case var_set self s of (k, s') \<Rightarrow> (Inr (), s'\<lparr>token := (token s')(self \<mapsto> k)\<rparr>)))"

text \<open>
  The thread that joins the worker: it shuts the executor down and resolves the future that
  \<open>__aexit__\<close> awaits, unless that await was cancelled meanwhile.
\<close>

definition join :: "pool \<Rightarrow> unit future \<Rightarrow> mgr \<Rightarrow> unit future \<times> mgr" where
  "join e f s = ((case set_result () f of Inl _ \<Rightarrow> f | Inr g \<Rightarrow> g), shutdown e s)"

text \<open>\<open>interrupted\<close>: the task is cancelled while it waits for the join.\<close>

definition thread_sensitive_exit :: "bool \<Rightarrow> obj \<Rightarrow> (mgr, unit) py" where
  "thread_sensitive_exit interrupted self = (\<lambda>s. case token s self of
     None \<Rightarrow> (Inr (), s)
   | Some k \<Rightarrow> (case pop_executor self s of (executor, s') \<Rightarrow>
       (case var_reset k s' of
          (Inl e, s'') \<Rightarrow> (Inl e, s'')
        | (Inr _, s'') \<Rightarrow> (case executor of
            None \<Rightarrow> (Inr (), s'')
          | Some e \<Rightarrow>
              (let f = (if interrupted then snd (future_cancel new_future) else new_future)
               in (case join e f s'' of (g, t) \<Rightarrow>
                     ((case future_result g of Some r \<Rightarrow> r | None \<Rightarrow> Inl InvalidStateError), t)))))))"

text \<open>The executor of the manager that is current, made when there is none yet.\<close>

definition context_executor :: "obj \<Rightarrow> mgr \<Rightarrow> pool \<times> mgr" where
  "context_executor x s = (case to_executor s x of
     Some e \<Rightarrow> (e, s)
   | None \<Rightarrow> (next_pool s, s\<lparr>to_executor := (to_executor s)(x \<mapsto> next_pool s), next_pool := Suc (next_pool s)\<rparr>))"

section \<open>Programs with nested managers\<close>

datatype manager = SingleThread | ThreadSensitive

fun mgr_enter :: "manager \<Rightarrow> obj \<Rightarrow> (mgr, unit) py" where
  "mgr_enter SingleThread = single_thread_enter"
| "mgr_enter ThreadSensitive = thread_sensitive_enter"

fun mgr_exit :: "manager \<Rightarrow> obj \<Rightarrow> (mgr, unit) py" where
  "mgr_exit SingleThread = single_thread_exit"
| "mgr_exit ThreadSensitive = thread_sensitive_exit False"

text \<open>
  A body enters further managers, makes calls that take the executor of the current manager
  (\<open>Use\<close>; with no manager the call finds its executor elsewhere), or raises.
\<close>

datatype block = With obj "block list" | Use | Fail exn

fun objects :: "block \<Rightarrow> obj set" where
  "objects (With x bs) = insert x (\<Union>b \<in> set bs. objects b)"
| "objects _ = {}"

definition use_executor :: "(mgr, unit) py" where
  "use_executor = (\<lambda>s. case cur s of
     None \<Rightarrow> (Inr (), s)
   | Some x \<Rightarrow> (case context_executor x s of (e, t) \<Rightarrow> (Inr (), t\<lparr>handed := handed t @ [e]\<rparr>)))"

fun run_block :: "manager \<Rightarrow> block \<Rightarrow> (mgr, unit) py" and
  run_body :: "manager \<Rightarrow> block list \<Rightarrow> (mgr, unit) py" where
  "run_block m (With x bs) = py_bind (mgr_enter m x) (\<lambda>_. py_finally (run_body m bs) (mgr_exit m x))"
| "run_block m Use = use_executor"
| "run_block m (Fail e) = py_raise e"
| "run_body m [] = py_return ()"
| "run_body m (b # bs) = py_bind (run_block m b) (\<lambda>_. run_body m bs)"

section \<open>The contract of a re-entrant manager\<close>

text \<open>
  What a body relies on: the outermost manager installs itself and on exit restores what
  was there and shuts its executor down; managers inside it change nothing.
\<close>

definition installed :: "obj \<Rightarrow> mgr \<Rightarrow> mgr" where
  "installed x s = s\<lparr>cur := Some x, token := (token s)(x \<mapsto> next_token s),
     old_value := (old_value s)(next_token s := cur s), next_token := Suc (next_token s)\<rparr>"

definition removed :: "obj \<Rightarrow> token \<Rightarrow> mgr \<Rightarrow> mgr" where
  "removed x k s = s\<lparr>cur := old_value s k, used_tokens := k # used_tokens s,
     to_executor := (to_executor s)(x := None),
     shut := shut s @ (case to_executor s x of None \<Rightarrow> [] | Some e \<Rightarrow> [e])\<rparr>"

text \<open>\<open>n\<close> calls under manager \<open>y\<close>.\<close>

definition give :: "obj \<Rightarrow> nat \<Rightarrow> mgr \<Rightarrow> mgr" where
  "give y n s = (if n = 0 then s else
     (case context_executor y s of (e, t) \<Rightarrow> t\<lparr>handed := handed t @ replicate n e\<rparr>))"

lemma give_give: "give y m (give y n s) = give y (n + m) s"
  by (cases s) (auto simp: give_def context_executor_def replicate_add fun_eq_iff split: option.splits)

lemma give_0 [simp]: "give y 0 s = s"
  by (simp add: give_def)

lemma give_fields [simp]:
  "cur (give y n s) = cur s" "token (give y n s) = token s" "old_value (give y n s) = old_value s"
  "used_tokens (give y n s) = used_tokens s" "next_token (give y n s) = next_token s"
  "shut (give y n s) = shut s"
  by (simp_all add: give_def context_executor_def split: option.splits)

locale reentrant_context =
  fixes enter :: "obj \<Rightarrow> (mgr, unit) py" and leave :: "obj \<Rightarrow> (mgr, unit) py"
    and run :: "block \<Rightarrow> (mgr, unit) py" and run_list :: "block list \<Rightarrow> (mgr, unit) py"
  assumes enter_outermost: "cur s = None \<Longrightarrow> enter x s = (Inr (), installed x s)"
    and enter_inner: "cur s = Some y \<Longrightarrow> enter x s = (Inr (), s)"
    and leave_inner: "token s x = None \<Longrightarrow> leave x s = (Inr (), s)"
    and leave_outermost: "token s x = Some k \<Longrightarrow> k \<notin> set (used_tokens s) \<Longrightarrow>
          leave x s = (Inr (), removed x k s)"
    and run_With: "run (With x bs) = py_bind (enter x) (\<lambda>_. py_finally (run_list bs) (leave x))"
    and run_Use: "run Use = use_executor"
    and run_Fail: "run (Fail e) = py_raise e"
    and run_Nil: "run_list [] = py_return ()"
    and run_Cons: "run_list (b # bs) = py_bind (run b) (\<lambda>_. run_list bs)"
begin

lemmas run_eqs = run_With run_Use run_Fail run_Nil run_Cons

text \<open>Under a manager, bodies only make calls: they all take the executor of that manager.\<close>

lemma nested_list:
  assumes "\<And>b s. b \<in> set bs \<Longrightarrow> cur s = Some y \<Longrightarrow> \<forall>x \<in> objects b. token s x = None \<Longrightarrow>
      \<exists>n. snd (run b s) = give y n s"
    and "cur s = Some y" and "\<forall>b \<in> set bs. \<forall>x \<in> objects b. token s x = None"
  shows "\<exists>n. snd (run_list bs s) = give y n s"
  using assms
proof (induction bs arbitrary: s)
  case Nil
  show ?case by (rule exI [of _ 0]) (simp add: run_Nil py_return_def)
next
  case (Cons b bs)
  from Cons.prems(1) [of b s] Cons.prems(2,3) obtain n where n: "snd (run b s) = give y n s"
    by auto
  show ?case
  proof (cases "run b s")
    case (Pair r t)
    with n have t: "t = give y n s" by simp
    show ?thesis
    proof (cases r)
      case (Inl e)
      with Pair t show ?thesis by (auto simp: run_Cons py_bind_def)
    next
      case (Inr u)
      have "\<exists>m. snd (run_list bs t) = give y m t"
        by (rule Cons.IH) (use Cons.prems t in auto)
      with Inr Pair t show ?thesis by (auto simp: run_Cons py_bind_def give_give)
    qed
  qed
qed

lemma nested:
  "cur s = Some y \<Longrightarrow> \<forall>x \<in> objects b. token s x = None \<Longrightarrow> \<exists>n. snd (run b s) = give y n s"
proof (induction b arbitrary: s)
  case (With x bs)
  have "\<exists>n. snd (run_list bs s) = give y n s"
    using With.prems by (intro nested_list) (auto intro: With.IH)
  then obtain n where n: "snd (run_list bs s) = give y n s" ..
  have "token (give y n s) x = None" using With.prems(2) by simp
  with leave_inner enter_inner [OF With.prems(1)] n
  have "snd (run (With x bs) s) = give y n s"
    by (simp add: run_With py_bind_def py_finally_state)
  then show ?case ..
next
  case Use
  then have "snd (run Use s) = give y 1 s"
    by (simp add: run_Use use_executor_def give_def split: prod.splits)
  then show ?case ..
next
  case (Fail e)
  have "snd (run (Fail e) s) = give y 0 s" by (simp add: run_Fail py_raise_def)
  then show ?case ..
qed

text \<open>
  The outermost manager: every call in its body, at any depth, takes one and the same executor;
  at the end that executor is shut down and the variable is unset again, whether or not the
  body raised, and leaving never hides the outcome of the body.
\<close>

lemma outermost:
  assumes "cur s = None" and "next_token s \<notin> set (used_tokens s)"
    and "\<forall>b \<in> set bs. \<forall>z \<in> objects b. token s z = None \<and> z \<noteq> x"
  shows "\<exists>n. snd (run (With x bs) s) = removed x (next_token s) (give x n (installed x s)) \<and>
    fst (run (With x bs) s) = fst (run_list bs (installed x s))"
proof -
  have "cur (installed x s) = Some x" by (simp add: installed_def)
  moreover have "\<forall>b \<in> set bs. \<forall>z \<in> objects b. token (installed x s) z = None"
    using assms(3) by (simp add: installed_def)
  ultimately have "\<exists>n. snd (run_list bs (installed x s)) = give x n (installed x s)"
    by (intro nested_list nested) auto
  then obtain n where n: "snd (run_list bs (installed x s)) = give x n (installed x s)" ..
  have "leave x (give x n (installed x s)) =
      (Inr (), removed x (next_token s) (give x n (installed x s)))"
    using assms(2) by (intro leave_outermost) (simp_all add: installed_def)
  with n enter_outermost [OF assms(1)]
  have "snd (run (With x bs) s) = removed x (next_token s) (give x n (installed x s))"
    "fst (run (With x bs) s) = fst (run_list bs (installed x s))"
    by (cases "run_list bs (installed x s)"; simp add: run_With py_bind_def py_finally_def)+
  then show ?thesis by blast
qed

end

interpretation single_thread: reentrant_context
  "mgr_enter SingleThread" "mgr_exit SingleThread" "run_block SingleThread" "run_body SingleThread"
  by unfold_locales
    (simp_all add: single_thread_enter_def single_thread_exit_def var_set_def var_reset_def installed_def
      removed_def pop_executor_def shutdown_def split: option.splits)

interpretation thread_sensitive: reentrant_context
  "mgr_enter ThreadSensitive" "mgr_exit ThreadSensitive" "run_block ThreadSensitive" "run_body ThreadSensitive"
  by unfold_locales
    (simp_all add: thread_sensitive_enter_def thread_sensitive_exit_def var_set_def var_reset_def
      installed_def removed_def pop_executor_def shutdown_def join_def future_defs split: option.splits)

section \<open>Properties\<close>



text \<open>Leaving a manager keeps the outcome of the body. Under the same conditions a block raises
  exactly what its body raises.\<close>

theorem leaving_keeps_body_outcome:
  assumes "cur s = None" and "next_token s \<notin> set (used_tokens s)"
    and "\<forall>b \<in> set bs. \<forall>z \<in> objects b. token s z = None \<and> z \<noteq> x"
  shows "fst (run_block m (With x bs) s) = fst (run_body m bs (installed x s))"
  using single_thread.outermost [OF assms] thread_sensitive.outermost [OF assms] by (cases m) auto

theorem leaving_keeps_body_outcome_witness:
  "fst (run_block ThreadSensitive (With 0 [With 1 [Use], Fail ValueError]) new_mgr) = Inl ValueError"
  using leaving_keeps_body_outcome [of new_mgr "[With 1 [Use], Fail ValueError]" 0 ThreadSensitive]
  by (simp add: new_mgr_def py_simps installed_def thread_sensitive_enter_def thread_sensitive_exit_def
      use_executor_def context_executor_def)

text \<open>An interrupted exit still cleans up. When the task is cancelled while \<open>__aexit__\<close> waits
  for the join, the exit raises \<open>CancelledError\<close> but leaves exactly the state of an undisturbed
  exit: variable restored, executor unregistered and shut down.\<close>

theorem interrupted_exit_cleans_up:
  assumes "token s x = Some k" and "k \<notin> set (used_tokens s)" and "to_executor s x = Some e"
  shows "thread_sensitive_exit True x s = (Inl CancelledError, snd (thread_sensitive_exit False x s)) \<and>
    fst (thread_sensitive_exit False x s) = Inr () \<and>
    cur (snd (thread_sensitive_exit True x s)) = old_value s k \<and>
    shut (snd (thread_sensitive_exit True x s)) = shut s @ [e] \<and>
    to_executor (snd (thread_sensitive_exit True x s)) x = None"
  using assms
  by (simp add: thread_sensitive_exit_def pop_executor_def var_reset_def join_def shutdown_def future_defs)

theorem interrupted_exit_cleans_up_witness:
  "fst (thread_sensitive_exit True 0
     (new_mgr\<lparr>token := (\<lambda>_. None)(0 \<mapsto> 5), to_executor := (\<lambda>_. None)(0 \<mapsto> 7)\<rparr>)) = Inl CancelledError"
  using interrupted_exit_cleans_up
    [of "new_mgr\<lparr>token := (\<lambda>_. None)(0 \<mapsto> 5), to_executor := (\<lambda>_. None)(0 \<mapsto> 7)\<rparr>" 0 5 7]
  by (simp add: new_mgr_def)

text \<open>The managers are not re-entrant on one instance. Entering the same instance again inside
  itself makes the inner exit unset the variable and shut the executor down early, so a later
  call in the outer body gets none, and the outer exit raises \<open>RuntimeError\<close>.\<close>

theorem same_instance_is_not_reentrant:
  "fst (run_block m (With 0 [Use, With 0 [Use], Use]) new_mgr) = Inl RuntimeError \<and>
   handed (snd (run_block m (With 0 [Use, With 0 [Use], Use]) new_mgr)) = [0, 0] \<and>
   shut (snd (run_block m (With 0 [Use, With 0 [Use], Use]) new_mgr)) = [0]"
  by (cases m)
    (simp_all add: new_mgr_def py_simps single_thread_enter_def single_thread_exit_def
      thread_sensitive_enter_def thread_sensitive_exit_def var_set_def var_reset_def pop_executor_def
      shutdown_def join_def future_defs use_executor_def context_executor_def)

text \<open>A manager that was outermost once cannot be nested later. Its \<open>token\<close> is never cleared, so
  leaving it inside another manager raises \<open>RuntimeError\<close>, although it changed nothing on entry.\<close>

theorem stale_token_breaks_nesting:
  "fst (run_body m [With 1 [Use], With 2 [With 1 [Use]]] new_mgr) = Inl RuntimeError"
  by (cases m)
    (simp_all add: new_mgr_def py_simps single_thread_enter_def single_thread_exit_def
      thread_sensitive_enter_def thread_sensitive_exit_def var_set_def var_reset_def pop_executor_def
      shutdown_def join_def future_defs use_executor_def context_executor_def)

end
