(* ===== verification/Async_To_Sync.thy ===== *)
theory Async_To_Sync
  imports Context_Restore Sync_Contexts
begin

text \<open>
  \<open>AsyncToSync\<close> of \<open>asgiref/sync.py\<close>: choosing a loop, pushing a \<open>CurrentThreadExecutor\<close>
  through the \<open>executors\<close> \<open>Local\<close>, running the awaitable inside \<open>main_wrap\<close>, and taking its
  context back. Event loops, worker threads and the awaitable are parameters.
\<close>

section \<open>Values and variables\<close>

text \<open>The values that the package itself keeps in contexts and in \<open>executors\<close>.\<close>

type_synonym loop = nat

datatype val = VNone | VBool bool | VExecutor nat | VManager obj | VUser nat

definition executors_var :: cvar where
  "executors_var = ContextVar local_cvar_name 0"

definition single_thread_var :: cvar where
  "single_thread_var = ContextVar ''async_single_thread_context'' 1"

lemma single_thread_var_other [simp]: "cvar_name single_thread_var \<noteq> local_cvar_name"
  by (simp add: single_thread_var_def local_cvar_name_def)

lemma executors_var_name [simp]: "cvar_name executors_var = local_cvar_name"
  by (simp add: executors_var_def)

text \<open>\<open>getattr(executors, "current", None)\<close> in thread \<open>me\<close>.\<close>

definition current_of :: "tid \<Rightarrow> val frame \<Rightarrow> val" where
  "current_of me f = (case local_look me executors_var f ''current'' of None \<Rightarrow> VNone | Some v \<Rightarrow> v)"

abbreviation set_current :: "tid \<Rightarrow> val \<Rightarrow> val frame \<Rightarrow> val frame" where
  "set_current me v \<equiv> local_put me executors_var ''current'' v"

lemma current_free [simp]: "''current'' \<notin> set own_slots"
  by (simp add: own_slots_def)

lemma current_of_set [simp]: "current_of me (set_current me v f) = v"
  by (simp add: current_of_def local_attrs.look_put_same)

section \<open>State\<close>

text \<open>
  The attributes of \<open>SyncToAsync.threadlocal\<close> in one thread. \<open>task_context\<close> is the list that
  \<open>thread_handler\<close> shares with the awaiting \<open>SyncToAsync\<close> call.
\<close>

record threadlocal =
  main_event_loop_pid :: "nat option"
  main_event_loop :: "loop option"
  task_context :: "nat list option"

text \<open>
  The calling thread with the state that all threads share. \<open>above\<close> records the executor that
  each \<open>CurrentThreadExecutor\<close> was built on; \<open>busy\<close> are single-worker pools whose worker is
  occupied further up the call stack.
\<close>

record process =
  me :: tid
  pid :: nat
  running_here :: bool
  tl :: threadlocal
  pframe :: "val frame"
  next_exec :: nat
  above :: "nat \<Rightarrow> val"
  managers :: mgr
  loop_threads :: "loop \<Rightarrow> nat option" \<comment> \<open>\<open>loop_thread_executors\<close>\<close>
  busy :: "pool list"

text \<open>
  What a call meets outside the package: how the awaitable is created and what it does (it sees
  \<open>loop_thread_executors\<close>, the exception being handled and its own frame), which loops
  run and accept callbacks, and the threads and start contexts of tasks.
\<close>

record 'r call_env =
  force_new_loop :: bool
  handled :: "exn option"
  created :: "exn + unit"
  is_running :: "loop \<Rightarrow> bool"
  accepts :: "loop \<Rightarrow> bool"
  main_tid :: tid
  worker_tid :: tid
  worker_ctx :: "val ctxt"
  new_loop :: loop
  this_task :: nat
  coro :: "(loop \<Rightarrow> nat option) \<Rightarrow> exn option \<Rightarrow> val frame \<Rightarrow> (exn + 'r) \<times> val frame"

section \<open>main_wrap\<close>

text \<open>
  \<open>box\<close> is \<open>context[0]\<close>, the cell through which the wrapper hands the final context to the
  waiting thread.
\<close>

record 'r wrap =
  task_frame :: "val frame"
  box :: "val ctxt"
  call_result :: "'r future"
  parents :: "nat list option"

text \<open>
  The wrapper in the atomic steps that the waiting thread can observe: take the caller's
  context over and register the task; run the awaitable; unregister and capture the
  context; resolve the future.
\<close>

datatype 'r wrap_pc = WStart | WBody | WRan "exn + 'r" | WCaptured "exn + 'r" | WDone | WFailed exn

fun wrap_block :: "(val \<Rightarrow> val \<Rightarrow> bool) \<Rightarrow> tid \<Rightarrow> (loop \<Rightarrow> nat option) \<Rightarrow> 'r call_env \<Rightarrow>
    'r wrap_pc \<times> 'r wrap \<Rightarrow> 'r wrap_pc \<times> 'r wrap" where
  "wrap_block veq t lts env (WStart, w) =
     (case restore_context veq t (mem (task_frame w)) (box w) (ctx (task_frame w)) of
        (Inl e, c) \<Rightarrow> (WFailed e, w\<lparr>task_frame := (task_frame w)\<lparr>ctx := c\<rparr>\<rparr>)
      | (Inr _, c) \<Rightarrow> (WBody, w\<lparr>task_frame := (task_frame w)\<lparr>ctx := c\<rparr>,
          parents := map_option (\<lambda>ts. ts @ [this_task env]) (parents w)\<rparr>))"
| "wrap_block veq t lts env (WBody, w) =
     (case coro env lts (handled env) (task_frame w) of
        (r, f) \<Rightarrow> (WRan r, w\<lparr>task_frame := f\<rparr>))"
| "wrap_block veq t lts env (WRan r, w) =
     (WCaptured r, w\<lparr>parents := map_option (remove1 (this_task env)) (parents w), box := ctx (task_frame w)\<rparr>)"
| "wrap_block veq t lts env (WCaptured r, w) =
     (case set_outcome r (call_result w) of
        Inl e \<Rightarrow> (WFailed e, w)
      | Inr g \<Rightarrow> (WDone, w\<lparr>call_result := g\<rparr>))"
| "wrap_block veq t lts env (WDone, w) = (WDone, w)"
| "wrap_block veq t lts env (WFailed e, w) = (WFailed e, w)"

text \<open>The whole coroutine: four steps, none of which can be repeated.\<close>

definition main_wrap :: "(val \<Rightarrow> val \<Rightarrow> bool) \<Rightarrow> tid \<Rightarrow> (loop \<Rightarrow> nat option) \<Rightarrow> 'r call_env \<Rightarrow>
    'r wrap \<Rightarrow> 'r wrap_pc \<times> 'r wrap" where
  "main_wrap veq t lts env w = (wrap_block veq t lts env ^^ 4) (WStart, w)"

section \<open>The call\<close>

text \<open>The loop is that of the parent \<open>SyncToAsync\<close> call, if it is from this process.\<close>

definition resolve_loop :: "bool \<Rightarrow> nat \<Rightarrow> threadlocal \<Rightarrow> loop option" where
  "resolve_loop force own_pid th = (if force then None else
     (case main_event_loop_pid th of
        None \<Rightarrow> None
      | Some p \<Rightarrow> if p \<noteq> 0 \<and> p = own_pid then main_event_loop th else None))"

definition push_executor :: "process \<Rightarrow> nat \<times> val \<times> process" where
  "push_executor s = (let e = next_exec s; old = current_of (me s) (pframe s)
     in (e, old, s\<lparr>pframe := set_current (me s) (VExecutor e) (pframe s), next_exec := Suc e,
          above := (above s)(e := old)\<rparr>))"

text \<open>The pool that runs a new loop: that of the current \<open>AsyncSingleThreadContext\<close>, or a new one.\<close>

definition choose_loop_executor :: "process \<Rightarrow> pool \<times> process" where
  "choose_loop_executor s = (case dict_get (ctx (pframe s)) single_thread_var of
     Some (CUser (VManager x)) \<Rightarrow> (case context_executor x (managers s) of
        (p, m) \<Rightarrow> (p, s\<lparr>managers := m\<rparr>))
   | _ \<Rightarrow> (next_pool (managers s), s\<lparr>managers := (managers s)\<lparr>next_pool := Suc (next_pool (managers s))\<rparr>\<rparr>))"

definition start_wrap :: "val ctxt \<Rightarrow> process \<Rightarrow> 'r wrap" where
  "start_wrap c s = \<lparr>task_frame = \<lparr>mem = mem (pframe s), ctx = c\<rparr>, box = ctx (pframe s),
     call_result = new_future, parents = task_context (tl s)\<rparr>"

definition after_wrap :: "'r wrap \<Rightarrow> process \<Rightarrow> process" where
  "after_wrap w s = s\<lparr>pframe := (pframe s)\<lparr>mem := mem (task_frame w)\<rparr>,
     tl := (tl s)\<lparr>task_context := parents w\<rparr>\<rparr>"

text \<open>
  In the parent's loop. A task scheduled there starts with the calling thread's context. If
  \<open>main_wrap\<close> ends without resolving the future, the calling thread waits for ever
  (\<open>None\<close>).
\<close>

type_synonym 'r tried = "((exn + unit) \<times> val ctxt \<times> 'r future \<times> process) option"

definition in_main_loop :: "(val \<Rightarrow> val \<Rightarrow> bool) \<Rightarrow> 'r call_env \<Rightarrow> process \<Rightarrow> 'r tried" where
  "in_main_loop veq env s = (case main_wrap veq (main_tid env) (loop_threads s) env (start_wrap (ctx (pframe s)) s) of
     (_, w) \<Rightarrow> if future_done (call_result w) then Some (Inr (), box w, call_result w, after_wrap w s) else None)"

text \<open>
  In a new loop on a worker, while the executor is registered for that loop. The error of
  \<open>main_wrap\<close> is the error of the worker's future. A pool whose only worker is occupied by
  this call stack never starts the loop.
\<close>

definition in_new_loop :: "(val \<Rightarrow> val \<Rightarrow> bool) \<Rightarrow> 'r call_env \<Rightarrow> nat \<Rightarrow> process \<Rightarrow> 'r tried" where
  "in_new_loop veq env e s = (case choose_loop_executor s of (p, s') \<Rightarrow>
     if p \<in> set (busy s') then None
     else (case main_wrap veq (worker_tid env) ((loop_threads s')(new_loop env \<mapsto> e)) env
                  (start_wrap (worker_ctx env) s') of
        (pc, w) \<Rightarrow> Some ((case pc of WFailed x \<Rightarrow> Inl x | _ \<Rightarrow> Inr ()), box w, call_result w,
            (after_wrap w s')\<lparr>loop_threads := (loop_threads s')(new_loop env := None)\<rparr>)))"

definition attempt :: "(val \<Rightarrow> val \<Rightarrow> bool) \<Rightarrow> 'r call_env \<Rightarrow> nat \<Rightarrow> process \<Rightarrow> 'r tried" where
  "attempt veq env e s = (case created env of
     Inl x \<Rightarrow> Some (Inl x, ctx (pframe s), new_future, s)
   | Inr _ \<Rightarrow> (case resolve_loop (force_new_loop env) (pid s) (tl s) of
        None \<Rightarrow> in_new_loop veq env e s
      | Some l \<Rightarrow> if is_running env l \<and> accepts env l then in_main_loop veq env s
                  else in_new_loop veq env e s))"

text \<open>The \<open>finally\<close> block: the context first, the old executor second.\<close>

definition restore_caller :: "(val \<Rightarrow> val \<Rightarrow> bool) \<Rightarrow> val \<Rightarrow> val ctxt \<Rightarrow> (process, unit) py" where
  "restore_caller veq old c = (\<lambda>s.
     case restore_context veq (me s) (mem (pframe s)) c (ctx (pframe s)) of
       (Inl e, c') \<Rightarrow> (Inl e, s\<lparr>pframe := (pframe s)\<lparr>ctx := c'\<rparr>\<rparr>)
     | (Inr _, c') \<Rightarrow> (Inr (), s\<lparr>pframe := set_current (me s) old ((pframe s)\<lparr>ctx := c'\<rparr>)\<rparr>))"

definition async_to_sync_call :: "(val \<Rightarrow> val \<Rightarrow> bool) \<Rightarrow> 'r call_env \<Rightarrow> process \<Rightarrow> ((exn + 'r) \<times> process) option" where
  "async_to_sync_call veq env s = (if running_here s then Some (Inl RuntimeError, s)
     else (case push_executor s of (e, old, s1) \<Rightarrow>
       (case attempt veq env e s1 of
          None \<Rightarrow> None
        | Some (r, c, result, s2) \<Rightarrow>
           (case restore_caller veq old c s2 of
              (Inl x, s3) \<Rightarrow> Some (Inl x, s3)
            | (Inr _, s3) \<Rightarrow> (case r of
                Inl x \<Rightarrow> Some (Inl x, s3)
              | Inr _ \<Rightarrow> map_option (\<lambda>v. (v, s3)) (future_result result))))))"

end
