(* ===== verification/Async_Properties.thy ===== *)
theory Async_Properties
  imports Async_To_Sync
begin

text \<open>
  Properties of \<open>AsyncToSync\<close>: the outcome of a call, the executor that the awaitable finds, the
  context changes that come back, the hand-over of the final context to the waiting thread, and
  the ways in which a call can fail or never return.
\<close>

section \<open>The wrapper as a whole\<close>

text \<open>The frame on which the awaitable starts, and what it does there.\<close>

definition start_frame :: "(val \<Rightarrow> val \<Rightarrow> bool) \<Rightarrow> tid \<Rightarrow> val ctxt \<Rightarrow> process \<Rightarrow> val frame" where
  "start_frame veq t c s = \<lparr>mem = mem (pframe s),
     ctx = snd (restore_context veq t (mem (pframe s)) (ctx (pframe s)) c)\<rparr>"

lemma four: "(f ^^ 4) x = f (f (f (f x)))"
  by (simp add: numeral_eq_Suc)

lemma main_wrap_runs:
  assumes "movable (ctx (pframe s))" and "dict_ok (ctx (pframe s))"
    and "coro env lts (handled env) (start_frame veq t c s) = (r, f)"
  shows "main_wrap veq t lts env (start_wrap c s) = (WDone, \<lparr>task_frame = f, box = ctx f,
    call_result = \<lparr>fut_state = FINISHED, fut_outcome = Some r\<rparr>,
    parents = map_option (\<lambda>ts. remove1 (this_task env) (ts @ [this_task env])) (task_context (tl s))\<rparr>)"
proof -
  obtain c' where c': "restore_context veq t (mem (pframe s)) (ctx (pframe s)) c = (Inr (), c')"
    using restore_context_returns [OF assms(1,2)] by (metis prod.collapse)
  then have "start_frame veq t c s = \<lparr>mem = mem (pframe s), ctx = c'\<rparr>" by (simp add: start_frame_def)
  with assms(3) c' show ?thesis
    by (simp add: main_wrap_def four start_wrap_def future_defs option.map_comp comp_def)
qed

lemma main_wrap_fails:
  assumes "restore_context veq t (mem (pframe s)) (ctx (pframe s)) c = (Inl e, c')"
  shows "\<exists>w. main_wrap veq t lts env (start_wrap c s) = (WFailed e, w) \<and> call_result w = new_future \<and>
    box w = ctx (pframe s) \<and> mem (task_frame w) = mem (pframe s)"
  using assms by (simp add: main_wrap_def four start_wrap_def)

section \<open>The hand-over of the final context\<close>

text \<open>
  The wrapper runs in the loop's thread while the calling thread waits on \<open>call_result\<close> and,
  once it is done, reads \<open>context[0]\<close>. Their steps interleave in any order.
\<close>

record 'r handover =
  wpc :: "'r wrap_pc"
  wrapper :: "'r wrap"
  picked_up :: "val ctxt option"

inductive handover_step :: "(val \<Rightarrow> val \<Rightarrow> bool) \<Rightarrow> tid \<Rightarrow> (loop \<Rightarrow> nat option) \<Rightarrow> 'r call_env \<Rightarrow>
    'r handover \<Rightarrow> 'r handover \<Rightarrow> bool" for veq t lts env where
  wrapper_moves: "wrap_block veq t lts env (wpc h, wrapper h) = (p, w) \<Longrightarrow>
     handover_step veq t lts env h (h\<lparr>wpc := p, wrapper := w\<rparr>)"
| caller_reads: "picked_up h = None \<Longrightarrow> future_done (call_result (wrapper h)) \<Longrightarrow>
     handover_step veq t lts env h (h\<lparr>picked_up := Some (box (wrapper h))\<rparr>)"

definition handover_start :: "'r handover \<Rightarrow> bool" where
  "handover_start h \<longleftrightarrow> wpc h = WStart \<and> call_result (wrapper h) = new_future \<and> picked_up h = None"

text \<open>What holds at each point of the wrapper: the awaitable ran once, and with what outcome.\<close>

definition ran :: "(loop \<Rightarrow> nat option) \<Rightarrow> 'r call_env \<Rightarrow> exn + 'r \<Rightarrow> val frame \<Rightarrow> bool" where
  "ran lts env r f \<longleftrightarrow> (\<exists>f0. coro env lts (handled env) f0 = (r, f))"

fun wrap_point :: "(loop \<Rightarrow> nat option) \<Rightarrow> 'r call_env \<Rightarrow> 'r wrap_pc \<Rightarrow> 'r wrap \<Rightarrow> bool" where
  "wrap_point lts env WDone w = ((\<exists>r. ran lts env r (task_frame w) \<and>
      call_result w = \<lparr>fut_state = FINISHED, fut_outcome = Some r\<rparr>) \<and> box w = ctx (task_frame w))"
| "wrap_point lts env (WCaptured r) w = (call_result w = new_future \<and> ran lts env r (task_frame w) \<and>
      box w = ctx (task_frame w))"
| "wrap_point lts env (WRan r) w = (call_result w = new_future \<and> ran lts env r (task_frame w))"
| "wrap_point lts env _ w = (call_result w = new_future)"

definition handover_inv :: "(loop \<Rightarrow> nat option) \<Rightarrow> 'r call_env \<Rightarrow> 'r handover \<Rightarrow> bool" where
  "handover_inv lts env h \<longleftrightarrow> wrap_point lts env (wpc h) (wrapper h) \<and>
     (\<forall>c. picked_up h = Some c \<longrightarrow> wpc h = WDone \<and> c = ctx (task_frame (wrapper h)))"

lemma wrap_point_block:
  "wrap_block veq t lts env (p, w) = (q, v) \<Longrightarrow> wrap_point lts env p w \<Longrightarrow>
     wrap_point lts env q v \<and> (p = WDone \<longrightarrow> q = WDone \<and> v = w)"
  by (cases p) (auto simp: future_defs ran_def split: prod.splits sum.splits)

lemma wrap_point_done: "wrap_point lts env p w \<Longrightarrow> future_done (call_result w) \<Longrightarrow> p = WDone"
  by (cases p) (auto simp: future_defs)

lemma handover_inv_step:
  assumes "handover_inv lts env h" and "handover_step veq t lts env h h'"
  shows "handover_inv lts env h'"
  using assms(2)
proof cases
  case (wrapper_moves p w)
  with wrap_point_block [OF this(2)] assms(1) show ?thesis by (auto simp: handover_inv_def)
next
  case caller_reads
  with assms(1) wrap_point_done [of lts env "wpc h" "wrapper h"] show ?thesis
    by (auto simp: handover_inv_def)
qed

interpretation handover: invariant_system "handover_step veq t lts env" "handover_inv lts env" handover_start
  for veq t lts env
  by unfold_locales (fact handover_inv_step, simp add: handover_inv_def handover_start_def)

text \<open>The wrapper alone, and the caller's read, as steps of the system.\<close>

definition advance :: "(val \<Rightarrow> val \<Rightarrow> bool) \<Rightarrow> tid \<Rightarrow> (loop \<Rightarrow> nat option) \<Rightarrow> 'r call_env \<Rightarrow>
    'r handover \<Rightarrow> 'r handover" where
  "advance veq t lts env h = (case wrap_block veq t lts env (wpc h, wrapper h) of
     (p, w) \<Rightarrow> h\<lparr>wpc := p, wrapper := w\<rparr>)"

lemma reach_advance:
  "reach handover_start (handover_step veq t lts env) h \<Longrightarrow>
   reach handover_start (handover_step veq t lts env) ((advance veq t lts env ^^ n) h)"
proof (induction n)
  case (Suc n)
  let ?h = "(advance veq t lts env ^^ n) h"
  have "handover_step veq t lts env ?h (advance veq t lts env ?h)"
    by (cases "wrap_block veq t lts env (wpc ?h, wrapper ?h)") (simp add: advance_def wrapper_moves)
  with Suc show ?case by (auto intro: reach_step)
qed simp

lemma reach_read:
  assumes "reach handover_start (handover_step veq t lts env) h" and "picked_up h = None"
    and "future_done (call_result (wrapper h))" and "box (wrapper h) = c"
  shows "reach handover_start (handover_step veq t lts env) (h\<lparr>picked_up := Some c\<rparr>)"
  using assms(1) caller_reads [OF assms(2,3), of veq t lts env] unfolding assms(4) by (rule reach_step)

text \<open>No context change is lost in the hand-over. However the wrapper's steps and the waiting
  thread interleave, the awaitable has run by the time the caller picks up \<open>context[0]\<close>, and what
  it picks up is the context in which the awaitable ended; the future holds the awaitable's outcome.\<close>

theorem caller_reads_final_context:
  assumes "reach handover_start (handover_step veq t lts env) h" and "picked_up h = Some c"
  shows "\<exists>f0 r f. coro env lts (handled env) f0 = (r, f) \<and> c = ctx f \<and>
    future_result (call_result (wrapper h)) = Some r"
proof -
  from handover.invariant [OF assms(1)] have "handover_inv lts env h" .
  with assms(2) show ?thesis by (fastforce simp: handover_inv_def ran_def future_defs)
qed

section \<open>One call\<close>

definition in_parent_loop :: "'r call_env \<Rightarrow> process \<Rightarrow> bool" where
  "in_parent_loop env s \<longleftrightarrow> (case resolve_loop (force_new_loop env) (pid s) (tl s) of
     None \<Rightarrow> False | Some l \<Rightarrow> is_running env l \<and> accepts env l)"

abbreviation pushed :: "process \<Rightarrow> process" where
  "pushed s \<equiv> snd (snd (push_executor s))"

definition worker_free :: "'r call_env \<Rightarrow> process \<Rightarrow> bool" where
  "worker_free env s \<longleftrightarrow> in_parent_loop env s \<or> fst (choose_loop_executor (pushed s)) \<notin> set (busy s)"

text \<open>The thread and the frame on which the awaitable of a call starts, and its outcome.\<close>

definition loop_tid :: "'r call_env \<Rightarrow> process \<Rightarrow> tid" where
  "loop_tid env s = (if in_parent_loop env s then main_tid env else worker_tid env)"

definition begins :: "(val \<Rightarrow> val \<Rightarrow> bool) \<Rightarrow> 'r call_env \<Rightarrow> process \<Rightarrow> val frame" where
  "begins veq env s = start_frame veq (loop_tid env s)
     (if in_parent_loop env s then ctx (pframe (pushed s)) else worker_ctx env) (pushed s)"

definition loops_seen :: "'r call_env \<Rightarrow> process \<Rightarrow> loop \<Rightarrow> nat option" where
  "loops_seen env s = (if in_parent_loop env s then loop_threads s
     else (loop_threads s)(new_loop env \<mapsto> next_exec s))"

definition awaited :: "(val \<Rightarrow> val \<Rightarrow> bool) \<Rightarrow> 'r call_env \<Rightarrow> process \<Rightarrow> (exn + 'r) \<times> val frame" where
  "awaited veq env s = coro env (loops_seen env s) (handled env) (begins veq env s)"

text \<open>What a call leaves alone of its calling thread, the list of nested tasks apart.\<close>

definition same_caller :: "process \<Rightarrow> process \<Rightarrow> bool" where
  "same_caller s t \<longleftrightarrow> me t = me s \<and> pid t = pid s \<and> running_here t = running_here s \<and> busy t = busy s \<and>
     main_event_loop_pid (tl t) = main_event_loop_pid (tl s) \<and> main_event_loop (tl t) = main_event_loop (tl s)"

lemma pushed_fields [simp]:
  "me (pushed s) = me s" "running_here (pushed s) = running_here s" "pid (pushed s) = pid s" "tl (pushed s) = tl s"
  "loop_threads (pushed s) = loop_threads s" "busy (pushed s) = busy s" "managers (pushed s) = managers s"
  "pframe (pushed s) = set_current (me s) (VExecutor (next_exec s)) (pframe s)"
  by (simp_all add: push_executor_def Let_def)

lemma choose_loop_fields:
  "choose_loop_executor s = (p, s') \<Longrightarrow> me s' = me s \<and> tl s' = tl s \<and> pframe s' = pframe s \<and>
     loop_threads s' = loop_threads s \<and> busy s' = busy s \<and> pid s' = pid s \<and> running_here s' = running_here s"
  by (auto simp: choose_loop_executor_def split: option.splits cval.splits val.splits prod.splits)

lemma movable_set:
  assumes "movable c" and "movable [(x, v)]"
  shows "movable (dict_set x v c)"
  using assms by (induction c) (auto simp: movable_def split: cval.splits)

lemma ctx_set_current:
  "ctx (set_current t v f) = dict_set executors_var (CTuple [EIdent t, EDict (next_addr (mem f))]) (ctx f)"
  by (simp add: local_put_def local_setattr_def publish_def new_dict_def Let_def)

lemma set_current_ok:
  "movable (ctx f) \<Longrightarrow> movable (ctx (set_current t v f))"
  "dict_ok (ctx f) \<Longrightarrow> dict_ok (ctx (set_current t v f))"
proof -
  assume "movable (ctx f)"
  then show "movable (ctx (set_current t v f))"
    unfolding ctx_set_current by (rule movable_set) (simp add: movable_def)
qed (simp add: ctx_set_current)

lemma set_current_other:
  "x \<noteq> executors_var \<Longrightarrow> dict_get (ctx (set_current t v f)) x = dict_get (ctx f) x"
  by (simp add: ctx_set_current)

lemma mem_le_set_current: "mem_le (mem f) (mem (set_current t v f))"
  using mem_le_publish by (simp add: local_put_def local_setattr_def Let_def)

lemma set_current_dicts:
  "b < next_addr (mem f) \<Longrightarrow> dicts (mem (set_current t v f)) b = dicts (mem f) b"
  using mem_le_set_current [of f t v] by (simp add: mem_le_def)

lemma attempt_runs:
  assumes "created env = Inr ()" and "movable (ctx (pframe s))" and "dict_ok (ctx (pframe s))"
    and "worker_free env s" and "awaited veq env s = (r, f)"
  shows "\<exists>s2. attempt veq env (next_exec s) (pushed s) =
      Some (Inr (), ctx f, \<lparr>fut_state = FINISHED, fut_outcome = Some r\<rparr>, s2) \<and> same_caller s s2 \<and>
      pframe s2 = \<lparr>mem = mem f, ctx = ctx (pframe (pushed s))\<rparr>"
proof -
  note ok = set_current_ok(1) [OF assms(2)] set_current_ok(2) [OF assms(3)]
  show ?thesis
  proof (cases "in_parent_loop env s")
    case True
    then have "attempt veq env (next_exec s) (pushed s) = in_main_loop veq env (pushed s)"
      using assms(1) by (auto simp: attempt_def in_parent_loop_def split: option.splits)
    moreover have "coro env (loop_threads (pushed s)) (handled env)
        (start_frame veq (main_tid env) (ctx (pframe (pushed s))) (pushed s)) = (r, f)"
      using True assms(5) by (simp add: awaited_def begins_def loop_tid_def loops_seen_def)
    from main_wrap_runs [OF _ _ this] ok show ?thesis
      by (simp add: calculation in_main_loop_def future_defs after_wrap_def same_caller_def)
  next
    case False
    then have "attempt veq env (next_exec s) (pushed s) = in_new_loop veq env (next_exec s) (pushed s)"
      using assms(1) by (auto simp: attempt_def in_parent_loop_def split: option.splits)
    moreover obtain p u where pu: "choose_loop_executor (pushed s) = (p, u)" by fastforce
    note same = choose_loop_fields [OF pu]
    have "p \<notin> set (busy u)" using assms(4) False pu same by (simp add: worker_free_def)
    moreover have "coro env ((loop_threads u)(new_loop env \<mapsto> next_exec s)) (handled env)
        (start_frame veq (worker_tid env) (worker_ctx env) u) = (r, f)"
      using False assms(5) same
      by (simp add: awaited_def begins_def loop_tid_def loops_seen_def start_frame_def)
    from main_wrap_runs [OF _ _ this] ok same have "main_wrap veq (worker_tid env)
        ((loop_threads u)(new_loop env \<mapsto> next_exec s)) env (start_wrap (worker_ctx env) u) =
        (WDone, \<lparr>task_frame = f, box = ctx f, call_result = \<lparr>fut_state = FINISHED, fut_outcome = Some r\<rparr>,
        parents = map_option (\<lambda>ts. remove1 (this_task env) (ts @ [this_task env])) (task_context (tl u))\<rparr>)"
      by simp
    ultimately show ?thesis using pu same by (simp add: in_new_loop_def after_wrap_def same_caller_def)
  qed
qed

lemma restore_caller_returns:
  assumes "movable c" and "dict_ok c"
  shows "restore_caller veq old c s = (Inr (), s\<lparr>pframe := set_current (me s) old
    ((pframe s)\<lparr>ctx := snd (restore_context veq (me s) (mem (pframe s)) c (ctx (pframe s)))\<rparr>)\<rparr>)"
  using restore_context_returns [OF assms, of veq "me s" "mem (pframe s)" "ctx (pframe s)"]
  by (cases "restore_context veq (me s) (mem (pframe s)) c (ctx (pframe s))") (simp add: restore_caller_def)

text \<open>The calling thread after a call: its context restored, then its old executor put back.\<close>

lemma async_to_sync_ends:
  assumes "\<not> running_here s" and "created env = Inr ()" and "movable (ctx (pframe s))"
    and "dict_ok (ctx (pframe s))" and "worker_free env s"
    and "awaited veq env s = (r, f)" and "movable (ctx f)" and "dict_ok (ctx f)"
  shows "\<exists>t. async_to_sync_call veq env s = Some (r, t) \<and> same_caller s t \<and>
    pframe t = set_current (me s) (current_of (me s) (pframe s)) \<lparr>mem = mem f,
      ctx = snd (restore_context veq (me s) (mem f) (ctx f) (ctx (pframe (pushed s))))\<rparr>"
proof -
  obtain s2 where s2: "attempt veq env (next_exec s) (pushed s) =
      Some (Inr (), ctx f, \<lparr>fut_state = FINISHED, fut_outcome = Some r\<rparr>, s2)" "same_caller s s2"
    "pframe s2 = \<lparr>mem = mem f, ctx = ctx (pframe (pushed s))\<rparr>"
    using attempt_runs [OF assms(2-6)] by blast
  then have me: "me s2 = me s" by (simp add: same_caller_def)
  obtain u where push: "push_executor s = (next_exec s, current_of (me s) (pframe s), u)"
    by (simp add: push_executor_def Let_def)
  then have s1: "attempt veq env (next_exec s) u =
      Some (Inr (), ctx f, \<lparr>fut_state = FINISHED, fut_outcome = Some r\<rparr>, s2)"
    using s2(1) by simp
  let ?c = "snd (restore_context veq (me s) (mem f) (ctx f) (ctx (pframe (pushed s))))"
  let ?t = "s2\<lparr>pframe := set_current (me s) (current_of (me s) (pframe s)) \<lparr>mem = mem f, ctx = ?c\<rparr>\<rparr>"
  have "restore_caller veq (current_of (me s) (pframe s)) (ctx f) s2 = (Inr (), ?t)"
    using restore_caller_returns [OF assms(7,8), of veq "current_of (me s) (pframe s)" s2] me s2(3)
    by (simp only: frame.simps)
  with assms(1) s1 have "async_to_sync_call veq env s = Some (r, ?t)"
    by (simp add: async_to_sync_call_def push future_defs)
  moreover have "same_caller s ?t" using s2(2) by (simp add: same_caller_def)
  moreover have "pframe ?t = set_current (me s) (current_of (me s) (pframe s)) \<lparr>mem = mem f, ctx = ?c\<rparr>" by simp
  ultimately show ?thesis by blast
qed

lemma async_to_sync_result:
  assumes "\<not> running_here s" and "created env = Inr ()" and "movable (ctx (pframe s))"
    and "dict_ok (ctx (pframe s))" and "worker_free env s"
    and "awaited veq env s = (r, f)" and "movable (ctx f)" and "dict_ok (ctx f)"
  shows "\<exists>t. async_to_sync_call veq env s = Some (r, t) \<and> mem_le (mem f) (mem (pframe t)) \<and>
    current_of (me s) (pframe t) = current_of (me s) (pframe s) \<and>
    (\<forall>x. x \<noteq> executors_var \<longrightarrow> dict_get (ctx (pframe t)) x = (case dict_get (ctx f) x of
        None \<Rightarrow> dict_get (ctx (pframe s)) x
      | Some v \<Rightarrow> Some (settled veq (mem f) (dict_get (ctx (pframe s)) x) (moved (me s) x v))))"
proof -
  let ?c = "snd (restore_context veq (me s) (mem f) (ctx f) (ctx (pframe (pushed s))))"
  let ?f = "set_current (me s) (current_of (me s) (pframe s)) \<lparr>mem = mem f, ctx = ?c\<rparr>"
  obtain t where t: "async_to_sync_call veq env s = Some (r, t)" "pframe t = ?f"
    using async_to_sync_ends [OF assms] by blast
  note t(1)
  moreover have "dict_get (ctx (pframe t)) x = (case dict_get (ctx f) x of
        None \<Rightarrow> dict_get (ctx (pframe s)) x
      | Some v \<Rightarrow> Some (settled veq (mem f) (dict_get (ctx (pframe s)) x) (moved (me s) x v)))"
    if "x \<noteq> executors_var" for x
  proof -
    have "dict_get (ctx (pframe t)) x = dict_get ?c x" unfolding t(2) using set_current_other [OF that] by simp
    also have "\<dots> = (case dict_get (ctx f) x of
        None \<Rightarrow> dict_get (ctx (pframe (pushed s))) x
      | Some v \<Rightarrow> Some (settled veq (mem f) (dict_get (ctx (pframe (pushed s))) x) (moved (me s) x v)))"
      by (rule restore_context_get_eq [OF assms(7,8)])
    finally show ?thesis by (simp add: set_current_other [OF that] split: option.split)
  qed
  moreover have "current_of (me s) (pframe t) = current_of (me s) (pframe s)" unfolding t(2) by simp
  moreover have "mem_le (mem f) (mem (pframe t))"
    unfolding t(2) using mem_le_set_current [of "\<lparr>mem = mem f, ctx = ?c\<rparr>"] by simp
  ultimately show ?thesis by blast
qed

text \<open>C5: a call returns what its awaitable did and leaves the caller as it should. Outside a
  running loop, whichever loop is used, the call returns the result or raises the exception of the
  awaitable, \<open>executors.current\<close> is again what it was, and every other context variable has
  the value in which the awaitable left it (or, if it left none, the caller's).\<close>

theorem async_to_sync_outcome:
  assumes "\<not> running_here s" and "created env = Inr ()" and "movable (ctx (pframe s))"
    and "dict_ok (ctx (pframe s))" and "worker_free env s"
    and "awaited veq env s = (r, f)" and "movable (ctx f)" and "dict_ok (ctx f)"
  shows "\<exists>t. async_to_sync_call veq env s = Some (r, t) \<and>
    current_of (me s) (pframe t) = current_of (me s) (pframe s) \<and>
    (\<forall>x. x \<noteq> executors_var \<longrightarrow> dict_get (ctx (pframe t)) x = (case dict_get (ctx f) x of
        None \<Rightarrow> dict_get (ctx (pframe s)) x
      | Some v \<Rightarrow> Some (settled veq (mem f) (dict_get (ctx (pframe s)) x) (moved (me s) x v))))"
  using async_to_sync_result [OF assms] by blast

lemma begins_with_own_executor:
  assumes "reflp veq" and "\<And>v e. veq v (VExecutor e) \<Longrightarrow> v = VExecutor e"
    and "\<forall>a. dict_ok (dicts (mem (pframe s)) a)"
    and "movable (ctx (pframe s))" and "dict_ok (ctx (pframe s))"
  shows "current_of (loop_tid env s) (begins veq env s) = VExecutor (next_exec s) \<and>
    (\<not> in_parent_loop env s \<longrightarrow> loops_seen env s (new_loop env) = Some (next_exec s))"
proof -
  let ?f = "set_current (me s) (VExecutor (next_exec s)) (pframe s)"
  let ?a = "next_addr (mem (pframe s))"
  have mem: "dicts (mem ?f) ?a = dict_set ''current'' (VExecutor (next_exec s))
      (case owned_data (me s) (dict_get (ctx (pframe s)) executors_var) of
         Some a \<Rightarrow> dicts (mem (pframe s)) a | None \<Rightarrow> [])"
    "b \<noteq> ?a \<Longrightarrow> dicts (mem ?f) b = dicts (mem (pframe s)) b" for b
    by (simp_all add: local_put_def local_setattr_def publish_def new_dict_def Let_def split: option.splits)
  have "dict_ok (dicts (mem ?f) b)" for b
    using assms(3) mem by (cases "b = ?a") (auto split: option.splits)
  moreover have "dict_get (ctx ?f) executors_var = Some (CTuple [EIdent (me s), EDict ?a])"
    by (simp add: ctx_set_current)
  ultimately have look: "look_eq veq (local_look t executors_var \<lparr>mem = mem ?f,
      ctx = snd (restore_context veq t (mem ?f) (ctx ?f) c)\<rparr>) (dict_get (dicts (mem ?f) ?a))" for t c
    using set_current_ok(1) [OF assms(4)] set_current_ok(2) [OF assms(5)]
    by (intro restore_local_look [OF assms(1)]) auto
  have cur: "dict_get (dicts (mem ?f) ?a) ''current'' = Some (VExecutor (next_exec s))"
    by (simp add: mem)
  have entry: "entry_eq veq (local_look t executors_var \<lparr>mem = mem ?f,
      ctx = snd (restore_context veq t (mem ?f) (ctx ?f) c)\<rparr> ''current'') (Some (VExecutor (next_exec s)))" for t c
    using spec [OF look [of t c, unfolded look_eq_def], of "''current''"] unfolding cur .
  have "current_of t (start_frame veq t c (pushed s)) = VExecutor (next_exec s)" for t c
  proof (cases "local_look t executors_var \<lparr>mem = mem ?f,
      ctx = snd (restore_context veq t (mem ?f) (ctx ?f) c)\<rparr> ''current''")
    case (Some v)
    with entry [of t c] assms(2) [of v "next_exec s"] Some show ?thesis
      by (simp add: current_of_def start_frame_def)
  qed (use entry [of t c] in simp)
  then show ?thesis by (simp add: begins_def loops_seen_def)
qed

text \<open>The awaitable finds the executor of its own call. On every route, \<open>executors.current\<close>
  in the loop's thread is the \<open>CurrentThreadExecutor\<close> that this call pushed, so that
  \<open>sync_to_async\<close> below runs its functions in the calling thread. (Executors compare equal
  only to themselves.)\<close>

theorem awaitable_finds_its_executor:
  assumes "reflp veq" and "\<And>v e. veq v (VExecutor e) \<Longrightarrow> v = VExecutor e"
    and "\<forall>a. dict_ok (dicts (mem (pframe s)) a)"
    and "movable (ctx (pframe s))" and "dict_ok (ctx (pframe s))"
  shows "current_of (loop_tid env s) (begins veq env s) = VExecutor (next_exec s) \<and>
    (\<not> in_parent_loop env s \<longrightarrow> loops_seen env s (new_loop env) = Some (next_exec s))"
  using assms by (rule begins_with_own_executor)

lemma set_current_dict_ok:
  assumes "\<forall>a. dict_ok (dicts (mem f) a)"
  shows "\<forall>a. dict_ok (dicts (mem (set_current t v f)) a)"
  using assms
  by (auto simp: local_put_def local_setattr_def publish_def new_dict_def Let_def split: option.splits)

lemma settled_ok:
  assumes "ctxt_ok m c" and "cval_ok m w" and "settled veq m (dict_get c x) w = CTuple [i, EDict b]"
  shows "b < next_addr m"
proof -
  have "cval_ok m (settled veq m (dict_get c x) w)"
    using ctxt_ok_get [OF assms(1), of x] assms(2)
    by (cases "dict_get c x") (auto simp: settled_def)
  with assms(3) show ?thesis by simp
qed

text \<open>\<open>Local\<close> data on its way into the awaitable, and on its way back.\<close>

lemma local_data_goes_in:
  assumes "movable (ctx (pframe s))" and "dict_ok (ctx (pframe s))" and "reflp veq"
    and "\<forall>a. dict_ok (dicts (mem (pframe s)) a)" and "ctxt_ok (mem (pframe s)) (ctx (pframe s))"
    and "cvar_name x = local_cvar_name" and "x \<noteq> executors_var"
    and a: "dict_get (ctx (pframe s)) x = Some (CTuple [EIdent (me s), EDict a])"
  shows "look_eq veq (local_look (loop_tid env s) x (begins veq env s)) (local_look (me s) x (pframe s))"
proof -
  let ?F = "set_current (me s) (VExecutor (next_exec s)) (pframe s)"
  have lt: "a < next_addr (mem (pframe s))" using ctxt_ok_get [OF assms(5) a] by simp
  have src: "dict_get (ctx ?F) x = Some (CTuple [EIdent (me s), EDict a])"
    using a set_current_other [OF assms(7)] by simp
  have "look_eq veq (local_look i x \<lparr>mem = mem ?F, ctx = snd (restore_context veq i (mem ?F) (ctx ?F) c)\<rparr>)
      (dict_get (dicts (mem ?F) a))" for i c
    by (rule restore_local_look [OF assms(3) set_current_dict_ok [OF assms(4)]
        set_current_ok(1) [OF assms(1)] set_current_ok(2) [OF assms(2)] assms(6) src])
  then have "look_eq veq (local_look (loop_tid env s) x (begins veq env s)) (dict_get (dicts (mem ?F) a))"
    by (simp add: begins_def start_frame_def)
  moreover have "local_look (me s) x (pframe s) = dict_get (dicts (mem ?F) a)"
    using a by (simp add: local_look_data set_current_dicts [OF lt])
  ultimately show ?thesis by simp
qed

lemma local_data_comes_back:
  assumes "reflp veq" and "\<forall>a. dict_ok (dicts (mem f) a)" and "ctxt_ok (mem f) c" and "ctxt_ok (mem f) (ctx f)"
    and "mem_le (mem f) (mem g)" and a: "dict_get (ctx f) x = Some (CTuple [EIdent i, EDict a])"
    and "dict_get (ctx g) x = Some (settled veq (mem f) (dict_get c x) (CTuple [EIdent t, EDict a]))"
  shows "look_eq veq (local_look t x g) (local_look i x f)"
proof -
  let ?w = "settled veq (mem f) (dict_get c x) (CTuple [EIdent t, EDict a])"
  obtain b where b: "?w = CTuple [EIdent t, EDict b]"
    "look_eq veq (dict_get (dicts (mem f) b)) (dict_get (dicts (mem f) a))"
    using settled_local [OF assms(1,2) refl] by blast
  have "cval_ok (mem f) (CTuple [EIdent t, EDict a])" using ctxt_ok_get [OF assms(4) a] by simp
  with b(1) have "b < next_addr (mem f)" by (intro settled_ok [OF assms(3)])
  then have "dicts (mem g) b = dicts (mem f) b" using assms(5) by (simp add: mem_le_def)
  with a b assms(7) show ?thesis by (simp add: local_look_data)
qed

text \<open>C6: \<open>Local\<close> data crosses \<open>async_to_sync\<close> both ways. In every \<open>Local\<close> other than
  \<open>executors\<close> the awaitable reads, on the loop's thread, what the caller reads, and after the call
  the caller reads what the awaitable's thread read there at the end.\<close>

theorem local_data_crosses_async_to_sync:
  assumes "\<not> running_here s" and "created env = Inr ()" and "movable (ctx (pframe s))"
    and "dict_ok (ctx (pframe s))" and "worker_free env s"
    and "awaited veq env s = (r, f)" and "movable (ctx f)" and "dict_ok (ctx f)"
    and "reflp veq" and "\<forall>a. dict_ok (dicts (mem (pframe s)) a)" and "\<forall>a. dict_ok (dicts (mem f) a)"
    and "ctxt_ok (mem (pframe s)) (ctx (pframe s))" and "ctxt_ok (mem f) (ctx (pframe s))"
    and "ctxt_ok (mem f) (ctx f)"
    and "cvar_name x = local_cvar_name" and "x \<noteq> executors_var"
  shows "(\<forall>a. dict_get (ctx (pframe s)) x = Some (CTuple [EIdent (me s), EDict a]) \<longrightarrow>
      look_eq veq (local_look (loop_tid env s) x (begins veq env s)) (local_look (me s) x (pframe s))) \<and>
    (\<exists>t. async_to_sync_call veq env s = Some (r, t) \<and>
      (\<forall>a. dict_get (ctx f) x = Some (CTuple [EIdent (loop_tid env s), EDict a]) \<longrightarrow>
        look_eq veq (local_look (me s) x (pframe t)) (local_look (loop_tid env s) x f)))"
proof (intro conjI allI impI)
  fix a assume "dict_get (ctx (pframe s)) x = Some (CTuple [EIdent (me s), EDict a])"
  with assms(3,4,9,10,12,15,16)
  show "look_eq veq (local_look (loop_tid env s) x (begins veq env s)) (local_look (me s) x (pframe s))"
    by (rule local_data_goes_in)
next
  obtain t where t: "async_to_sync_call veq env s = Some (r, t)" "mem_le (mem f) (mem (pframe t))"
    "\<forall>x. x \<noteq> executors_var \<longrightarrow> dict_get (ctx (pframe t)) x = (case dict_get (ctx f) x of
        None \<Rightarrow> dict_get (ctx (pframe s)) x
      | Some v \<Rightarrow> Some (settled veq (mem f) (dict_get (ctx (pframe s)) x) (moved (me s) x v)))"
    using async_to_sync_result [OF assms(1-8)] by blast
  have "look_eq veq (local_look (me s) x (pframe t)) (local_look (loop_tid env s) x f)"
    if a: "dict_get (ctx f) x = Some (CTuple [EIdent (loop_tid env s), EDict a])" for a
    using t(3) assms(15,16) a
    by (intro local_data_comes_back [OF assms(9,11,13,14) t(2) a]) simp
  with t(1) show "\<exists>t. async_to_sync_call veq env s = Some (r, t) \<and>
      (\<forall>a. dict_get (ctx f) x = Some (CTuple [EIdent (loop_tid env s), EDict a]) \<longrightarrow>
        look_eq veq (local_look (me s) x (pframe t)) (local_look (loop_tid env s) x f))" by blast
qed

text \<open>A calling thread, and an awaitable that sets a user variable and returns.\<close>

definition user_var :: cvar where
  "user_var = ContextVar ''user'' 7"

definition demo_call :: "(val ctxt) \<Rightarrow> (addr \<Rightarrow> (string, val) dict) \<Rightarrow> process" where
  "demo_call c ds = \<lparr>me = 1, pid = 10, running_here = False,
     tl = \<lparr>main_event_loop_pid = Some 10, main_event_loop = Some 5, task_context = None\<rparr>,
     pframe = \<lparr>mem = \<lparr>dicts = ds, next_addr = 1\<rparr>, ctx = c\<rparr>, next_exec = 3, above = (\<lambda>_. VNone),
     managers = new_mgr, loop_threads = (\<lambda>_. None), busy = []\<rparr>"

definition demo_env :: "bool \<Rightarrow> nat call_env" where
  "demo_env forced = \<lparr>force_new_loop = forced, handled = None, created = Inr (), is_running = (\<lambda>_. True),
     accepts = (\<lambda>_. True), main_tid = 2, worker_tid = 4, worker_ctx = [], new_loop = 6, this_task = 0,
     coro = (\<lambda>lts exc f. (Inr 7, f\<lparr>ctx := dict_set user_var (CUser (VUser 4)) (ctx f)\<rparr>))\<rparr>"

lemmas demo_defs = demo_call_def demo_env_def user_var_def executors_var_def single_thread_var_def
  local_cvar_name_def new_mgr_def

lemmas run_defs = push_executor_def Let_def resolve_loop_def in_main_loop_def
  in_new_loop_def choose_loop_executor_def start_wrap_def after_wrap_def main_wrap_def four
  restore_caller_def restore_one_def moved_value_def rehome_def py_simps current_of_def local_look_data
  local_put_def local_setattr_def own_slots_def publish_def new_dict_def future_defs

lemma demo_runs:
  "movable (ctx (pframe (demo_call [(user_var, CUser (VUser 3))] (\<lambda>_. [])))) \<and>
   dict_ok (ctx (pframe (demo_call [(user_var, CUser (VUser 3))] (\<lambda>_. [])))) \<and>
   awaited (=) (demo_env False) (demo_call [(user_var, CUser (VUser 3))] (\<lambda>_. [])) =
     (Inr 7, \<lparr>mem = \<lparr>dicts = (\<lambda>_. [])(1 := [(''current'', VExecutor 3)]), next_addr = 2\<rparr>,
        ctx = [(user_var, CUser (VUser 4)), (executors_var, CTuple [EIdent 2, EDict 1])]\<rparr>)"
  by (simp add: demo_defs run_defs awaited_def begins_def in_parent_loop_def loop_tid_def start_frame_def
      loops_seen_def movable_def dict_ok_def dict_eq_def)

theorem async_to_sync_outcome_witness:
  "\<exists>t. async_to_sync_call (=) (demo_env False) (demo_call [(user_var, CUser (VUser 3))] (\<lambda>_. [])) = Some (Inr 7, t) \<and>
     dict_get (ctx (pframe t)) user_var = Some (CUser (VUser 4))"
proof -
  let ?s = "demo_call [(user_var, CUser (VUser 3))] (\<lambda>_. [])"
  let ?f = "\<lparr>mem = \<lparr>dicts = (\<lambda>_. [])(1 := [(''current'', VExecutor 3)]), next_addr = 2\<rparr>,
        ctx = [(user_var, CUser (VUser 4)), (executors_var, CTuple [EIdent 2, EDict 1])]\<rparr>"
  have ok: "\<not> running_here ?s" "created (demo_env False) = Inr ()" "worker_free (demo_env False) ?s"
    by (simp_all add: demo_call_def demo_env_def worker_free_def in_parent_loop_def resolve_loop_def)
  have f: "movable (ctx ?f)" "dict_ok (ctx ?f)" "user_var \<noteq> executors_var"
    by (simp_all add: movable_def dict_ok_def user_var_def executors_var_def)
  have get: "dict_get (ctx (pframe ?s)) user_var = Some (CUser (VUser 3))" by (simp add: demo_call_def)
  obtain t where "async_to_sync_call (=) (demo_env False) ?s = Some (Inr 7, t)"
    and x: "\<forall>x. x \<noteq> executors_var \<longrightarrow> dict_get (ctx (pframe t)) x = (case dict_get (ctx ?f) x of
        None \<Rightarrow> dict_get (ctx (pframe ?s)) x
      | Some v \<Rightarrow> Some (settled (=) (mem ?f) (dict_get (ctx (pframe ?s)) x) (moved (me ?s) x v)))"
    using async_to_sync_outcome [OF ok(1,2) _ _ ok(3) _ f(1,2)] demo_runs by blast
  then show ?thesis
    using x [rule_format, OF f(3)] get
    by (simp add: settled_def user_var_def local_cvar_name_def)
qed

text \<open>The same with an awaitable that writes to a \<open>Local\<close>.\<close>

definition request_var :: cvar where
  "request_var = ContextVar local_cvar_name 8"

definition local_env :: "nat call_env" where
  "local_env = (demo_env False)\<lparr>coro := (\<lambda>lts exc f. (Inr 7, local_put 2 request_var ''k'' (VUser 4) f))\<rparr>"

definition local_call :: process where
  "local_call = demo_call [(request_var, CTuple [EIdent 1, EDict 0])] ((\<lambda>_. [])(0 := [(''k'', VUser 3)]))"

definition local_end :: "val frame" where
  "local_end = \<lparr>mem = \<lparr>dicts = (\<lambda>_. [])(0 := [(''k'', VUser 3)], 1 := [(''current'', VExecutor 3)],
       2 := [(''k'', VUser 4)]), next_addr = 3\<rparr>,
     ctx = [(request_var, CTuple [EIdent 2, EDict 2]), (executors_var, CTuple [EIdent 2, EDict 1])]\<rparr>"

lemma local_call_runs: "awaited (=) local_env local_call = (Inr 7, local_end)"
  by (simp add: local_call_def local_env_def local_end_def request_var_def demo_defs run_defs awaited_def
      begins_def in_parent_loop_def loop_tid_def start_frame_def loops_seen_def dict_eq_def)
    (simp add: numeral_2_eq_2)

theorem local_data_crosses_async_to_sync_witness:
  "\<exists>t. async_to_sync_call (=) local_env local_call = Some (Inr 7, t) \<and>
     look_eq (=) (local_look 1 request_var (pframe t)) [''k'' \<mapsto> VUser 4]"
proof -
  have ok: "\<not> running_here local_call" "created local_env = Inr ()" "movable (ctx (pframe local_call))"
    "dict_ok (ctx (pframe local_call))" "worker_free local_env local_call"
    by (simp_all add: local_call_def local_env_def demo_call_def demo_env_def worker_free_def in_parent_loop_def
        resolve_loop_def movable_def dict_ok_def)
  have f: "movable (ctx local_end)" "dict_ok (ctx local_end)" "\<forall>a. dict_ok (dicts (mem (pframe local_call)) a)"
    "\<forall>a. dict_ok (dicts (mem local_end) a)" "ctxt_ok (mem (pframe local_call)) (ctx (pframe local_call))"
    "ctxt_ok (mem local_end) (ctx (pframe local_call))" "ctxt_ok (mem local_end) (ctx local_end)"
    "cvar_name request_var = local_cvar_name" "request_var \<noteq> executors_var"
    by (simp_all add: local_end_def local_call_def demo_call_def request_var_def executors_var_def
        movable_def dict_ok_def ctxt_ok_def)
  have "reflp ((=) :: val \<Rightarrow> val \<Rightarrow> bool)" by (simp add: reflp_def)
  from local_data_crosses_async_to_sync [OF ok local_call_runs f(1,2) this f(3-9)]
  obtain t where "async_to_sync_call (=) local_env local_call = Some (Inr 7, t)"
    "look_eq (=) (local_look (me local_call) request_var (pframe t))
       (local_look (loop_tid local_env local_call) request_var local_end)"
    by (auto simp: local_end_def local_env_def demo_env_def loop_tid_def in_parent_loop_def resolve_loop_def
        local_call_def demo_call_def)
  then show ?thesis
    by (auto simp: local_end_def local_env_def demo_env_def loop_tid_def in_parent_loop_def resolve_loop_def
        local_call_def demo_call_def local_look_data request_var_def executors_var_def)
qed

theorem awaitable_finds_its_executor_witness:
  "current_of 4 (begins (=) (demo_env True) (demo_call [] (\<lambda>_. []))) = VExecutor 3"
  using awaitable_finds_its_executor [of "(=)" "demo_call [] (\<lambda>_. [])" "demo_env True"]
  by (simp add: demo_call_def demo_env_def loop_tid_def in_parent_loop_def resolve_loop_def
      movable_def reflp_def)

theorem caller_reads_final_context_witness:
  "\<exists>f0 r f. coro (demo_env False) Map.empty None f0 = (r, f) \<and>
     ctx f = [(executors_var, CTuple [EIdent 2, EDict 0]), (user_var, CUser (VUser 4))]"
proof -
  let ?s = "demo_call [(executors_var, CTuple [EIdent 1, EDict 0])] (\<lambda>_. [])"
  let ?h0 = "\<lparr>wpc = WStart, wrapper = start_wrap [] ?s, picked_up = None\<rparr> :: nat handover"
  let ?h = "(advance (=) 2 Map.empty (demo_env False) ^^ 4) ?h0"
  have "reach handover_start (handover_step (=) 2 Map.empty (demo_env False)) ?h"
    by (rule reach_advance) (simp add: reach_init handover_start_def start_wrap_def)
  moreover have "picked_up ?h = None" "future_done (call_result (wrapper ?h))"
    "box (wrapper ?h) = [(executors_var, CTuple [EIdent 2, EDict 0]), (user_var, CUser (VUser 4))]"
    by (simp_all add: advance_def demo_defs run_defs)
  ultimately have "reach handover_start (handover_step (=) 2 Map.empty (demo_env False))
      (?h\<lparr>picked_up := Some [(executors_var, CTuple [EIdent 2, EDict 0]), (user_var, CUser (VUser 4))]\<rparr>)"
    using reach_read by metis
  from caller_reads_final_context [OF this] show ?thesis by (auto simp: demo_env_def)
qed

section \<open>Calls that fail or never return\<close>

text \<open>A call from a thread with a running loop is refused before anything happens, and a call
  whose awaitable cannot even be created (a wrong argument list) raises that error with
  \<open>executors.current\<close> back in place.\<close>

theorem async_to_sync_early_errors:
  assumes "movable (ctx (pframe s))" and "dict_ok (ctx (pframe s))"
  shows "(running_here s \<longrightarrow> async_to_sync_call veq env s = Some (Inl RuntimeError, s)) \<and>
    (\<not> running_here s \<longrightarrow> created env = Inl x \<longrightarrow> (\<exists>t. async_to_sync_call veq env s = Some (Inl x, t) \<and>
       current_of (me s) (pframe t) = current_of (me s) (pframe s) \<and> loop_threads t = loop_threads s))"
proof (intro conjI impI)
  assume "\<not> running_here s" and x: "created env = Inl x"
  obtain u where push: "push_executor s = (next_exec s, current_of (me s) (pframe s), u)"
    by (simp add: push_executor_def Let_def)
  then have u: "u = pushed s" by simp
  have ok: "movable (ctx (pframe u))" "dict_ok (ctx (pframe u))"
    unfolding u pushed_fields by (rule set_current_ok(1) [OF assms(1)], rule set_current_ok(2) [OF assms(2)])
  have fields: "me u = me s" "loop_threads u = loop_threads s" unfolding u by (rule pushed_fields)+
  show "\<exists>t. async_to_sync_call veq env s = Some (Inl x, t) \<and>
       current_of (me s) (pframe t) = current_of (me s) (pframe s) \<and> loop_threads t = loop_threads s"
    using \<open>\<not> running_here s\<close> x restore_caller_returns [OF ok, of veq "current_of (me s) (pframe s)" u] fields
    by (simp add: async_to_sync_call_def push attempt_def)
qed (simp add: async_to_sync_call_def)

theorem async_to_sync_early_errors_witness:
  "async_to_sync_call (=) (demo_env False) ((demo_call [] (\<lambda>_. []))\<lparr>running_here := True\<rparr>) =
     Some (Inl RuntimeError, (demo_call [] (\<lambda>_. []))\<lparr>running_here := True\<rparr>)"
  using async_to_sync_early_errors [of "(demo_call [] (\<lambda>_. []))\<lparr>running_here := True\<rparr>" "(=)" "demo_env False"]
  by (simp add: demo_call_def movable_def)

text \<open>If the caller's context cannot be taken over, the two routes differ: in the parent's loop
  the wrapper dies before it resolves \<open>call_result\<close> and the call never returns, in a new loop
  the call raises the error. A foreign variable called like \<open>Local\<close>'s with an empty tuple is
  such a context.\<close>

theorem failed_takeover_hangs:
  "async_to_sync_call veq (demo_env False) (demo_call [(ContextVar local_cvar_name 9, CTuple [])] ds) = None \<and>
   map_option fst (async_to_sync_call veq (demo_env True)
     (demo_call [(ContextVar local_cvar_name 9, CTuple [])] ds)) = Some (Inl IndexError)"
  by (simp add: async_to_sync_call_def attempt_def demo_defs run_defs)

text \<open>An error while the context is taken back skips the rest of \<open>finally\<close>. If the awaitable
  leaves such a variable behind, the call raises \<open>IndexError\<close> although the awaitable
  returned, and \<open>executors.current\<close> stays the executor of the finished call.\<close>

theorem failed_take_back_leaks_executor:
  "\<exists>t. async_to_sync_call veq ((demo_env False)\<lparr>coro := (\<lambda>lts exc f.
       (Inr 7, f\<lparr>ctx := [(ContextVar local_cvar_name 9, CTuple [])]\<rparr>))\<rparr>) (demo_call [] (\<lambda>_. [])) =
     Some (Inl IndexError, t) \<and> current_of 1 (pframe t) = VExecutor 3"
  by (simp add: async_to_sync_call_def attempt_def demo_defs run_defs)

text \<open>Storage that a thread merely inherited does not stay isolated. A thread whose context holds
  another thread's \<open>Local\<close> data reads none of it; after any \<open>async_to_sync\<close> call, even of
  an awaitable that does not touch it, the thread reads all of it.\<close>

theorem call_adopts_inherited_data:
  "let x = ContextVar local_cvar_name 8;
       s = demo_call [(x, CTuple [EIdent 9, EDict 0])] ((\<lambda>_. [])(0 := [(''user'', VUser 3)]))
   in local_look 1 x (pframe s) = Map.empty \<and>
     (\<exists>t. async_to_sync_call (=) (demo_env False) s = Some (Inr 7, t) \<and>
          local_look 1 x (pframe t) = [''user'' \<mapsto> VUser 3])"
  by (simp add: async_to_sync_call_def attempt_def demo_defs run_defs dict_eq_def)

text \<open>Forcing a new loop under \<open>AsyncSingleThreadContext\<close> deadlocks. If the pool of the current
  context is occupied by this call stack, a call with \<open>force_new_loop\<close> never returns, while the
  same call without it uses the running loop.\<close>

theorem forced_loop_in_single_thread_context:
  assumes "\<not> running_here s" and "created env = Inr ()" and "force_new_loop env"
    and "dict_get (ctx (pframe s)) single_thread_var = Some (CUser (VManager x))"
    and "to_executor (managers s) x = Some p" and "p \<in> set (busy s)"
  shows "async_to_sync_call veq env s = None"
proof -
  obtain u where push: "push_executor s = (next_exec s, current_of (me s) (pframe s), u)"
    by (simp add: push_executor_def Let_def)
  then have u: "u = pushed s" by simp
  have "single_thread_var \<noteq> executors_var" by (simp add: single_thread_var_def executors_var_def)
  from set_current_other [OF this] have "choose_loop_executor u = (p, u\<lparr>managers := managers s\<rparr>)"
    using assms(4,5) unfolding u by (simp add: choose_loop_executor_def context_executor_def)
  moreover have "busy u = busy s" unfolding u by simp
  ultimately show ?thesis using assms(1-3,6)
    by (simp add: async_to_sync_call_def push attempt_def resolve_loop_def in_new_loop_def)
qed

theorem forced_loop_in_single_thread_context_witness:
  "async_to_sync_call (=) (demo_env True) ((demo_call [(single_thread_var, CUser (VManager 0))] (\<lambda>_. []))
     \<lparr>managers := new_mgr\<lparr>to_executor := (\<lambda>_. None)(0 \<mapsto> 2)\<rparr>, busy := [2]\<rparr>) = None"
  by (rule forced_loop_in_single_thread_context [of _ _ 0 2]) (simp_all add: demo_call_def demo_env_def)

end
