(* ===== verification/Call_System.thy ===== *)
theory Call_System
  imports Executor_Contract Async_Properties
begin

text \<open>
  One \<open>async_to_sync\<close> call as a system of threads: the loop's thread runs \<open>main_wrap\<close>, the
  calling thread runs the work items of its \<open>CurrentThreadExecutor\<close> until a future is done and
  then reads \<open>context[0]\<close>, and any other threads submit to that executor and to others. The
  hand-over of \<open>Async_Properties\<close> and the threads of \<open>Executor_Concurrency\<close> share one event, the
  resolution of the future that the runner waits for: \<open>call_result\<close> in the parent's loop, the
  future of the worker that runs the new loop otherwise.
\<close>

section \<open>The system\<close>

record ('r, 'j) call_sys =
  hand :: "'r handover"
  threads :: "'j sys"

text \<open>
  \<open>main\<close>: the call runs in the parent's loop. \<open>home\<close> is the executor of the call. In the
  parent's loop the step that sets the result of \<open>call_result\<close> is the one that resolves the
  runner's future; in a new loop that future is resolved after \<open>main_wrap\<close> has ended, even if it
  ended with an error. The caller reads once its runner has left \<open>run_until_future\<close>.
\<close>

inductive call_step :: "(val \<Rightarrow> val \<Rightarrow> bool) \<Rightarrow> tid \<Rightarrow> (loop \<Rightarrow> nat option) \<Rightarrow> 'r call_env \<Rightarrow> bool \<Rightarrow> eid \<Rightarrow>
    ('r, 'j) call_sys \<Rightarrow> ('r, 'j) call_sys \<Rightarrow> bool" for veq t lts env main home where
  wrap_moves: "wrap_block veq t lts env (wpc (hand c), wrapper (hand c)) = (p, w) \<Longrightarrow>
     p \<noteq> WDone \<or> \<not> main \<Longrightarrow>
     call_step veq t lts env main home c (c\<lparr>hand := (hand c)\<lparr>wpc := p, wrapper := w\<rparr>\<rparr>)"
| wrap_resolves: "wpc (hand c) = WCaptured r \<Longrightarrow> main \<Longrightarrow>
     wrap_block veq t lts env (wpc (hand c), wrapper (hand c)) = (WDone, w) \<Longrightarrow>
     perform (Resolve home) (threads c) = Some s \<Longrightarrow>
     call_step veq t lts env main home c
       (c\<lparr>hand := (hand c)\<lparr>wpc := WDone, wrapper := w\<rparr>, threads := s\<rparr>)"
| loop_ends: "\<not> main \<Longrightarrow> wpc (hand c) = WDone \<or> wpc (hand c) = WFailed e \<Longrightarrow>
     perform (Resolve home) (threads c) = Some s \<Longrightarrow>
     call_step veq t lts env main home c (c\<lparr>threads := s\<rparr>)"
| threads_act: "perform a (threads c) = Some s \<Longrightarrow> a \<noteq> Resolve home \<Longrightarrow>
     call_step veq t lts env main home c (c\<lparr>threads := s\<rparr>)"
| caller_picks_up: "control (threads c) home = Exited \<Longrightarrow> picked_up (hand c) = None \<Longrightarrow>
     call_step veq t lts env main home c (c\<lparr>hand := (hand c)\<lparr>picked_up := Some (box (wrapper (hand c)))\<rparr>\<rparr>)"


section \<open>Invariants\<close>

fun wrap_ended :: "'r wrap_pc \<Rightarrow> bool" where
  "wrap_ended WDone = True"
| "wrap_ended (WFailed e) = True"
| "wrap_ended _ = False"


text \<open>What ties the two halves together.\<close>

definition call_inv :: "(loop \<Rightarrow> nat option) \<Rightarrow> 'r call_env \<Rightarrow> bool \<Rightarrow> eid \<Rightarrow> ('r, 'j) call_sys \<Rightarrow> bool" where
  "call_inv lts env main home c \<longleftrightarrow> wrap_point lts env (wpc (hand c)) (wrapper (hand c)) \<and>
     sys_inv (threads c) \<and> execs (threads c) home \<noteq> None \<and>
     (resolved (threads c) home \<longrightarrow> (if main then wpc (hand c) = WDone else wrap_ended (wpc (hand c)))) \<and>
     (main \<and> wpc (hand c) = WDone \<longrightarrow> resolved (threads c) home) \<and>
     (\<forall>b. picked_up (hand c) = Some b \<longrightarrow> control (threads c) home = Exited \<and> b = box (wrapper (hand c)))"

lemma exited_resolved:
  assumes "sys_inv s" and "control s e = Exited"
  shows "resolved s e"
  using assms by (cases "execs s e") (auto simp: sys_inv_def exec_inv_def dest: spec [of _ e])






section \<open>The parts of the composed system\<close>


text \<open>In the parent's loop the other half does what the hand-over does alone, or nothing.\<close>

lemma call_step_handover:
  assumes "call_inv lts env True home c" and "call_step veq t lts env True home c d"
  shows "hand d = hand c \<or> handover_step veq t lts env (hand c) (hand d)"
  using assms(2)
proof cases
  case (wrap_moves p w)
  then show ?thesis by (auto intro: handover_step.wrapper_moves)
next
  case (wrap_resolves r w s)
  then show ?thesis by (auto intro: handover_step.wrapper_moves)
next
  case caller_picks_up
  have "resolved (threads c) home"
    using exited_resolved [of "threads c" home] assms(1) caller_picks_up(2) by (simp add: call_inv_def)
  then have "future_done (call_result (wrapper (hand c)))"
    using assms(1) by (auto simp: call_inv_def future_defs)
  with caller_picks_up show ?thesis by (auto intro: handover_step.caller_reads)
qed simp_all

section \<open>A call that returns\<close>


section \<open>A call can always return\<close>

















section \<open>Witnesses\<close>






end
