(* ===== verification/Sync_To_Async.thy ===== *)
theory Sync_To_Async
  imports Async_To_Sync
begin

text \<open>
  \<open>SyncToAsync\<close> of \<open>asgiref/sync.py\<close>: the checks at construction, the choice of the executor,
  running the function on a worker thread with the caller's context, and cancellation.
\<close>

section \<open>Construction\<close>

text \<open>What Python's introspection says about the object to wrap.\<close>

record callable =
  is_callable :: bool
  is_coroutine_function :: bool
  directly_introspectable :: bool \<comment> \<open>a function, method, builtin or partial\<close>
  call_is_coroutine_function :: bool

record sync_to_async =
  thread_sensitive :: bool
  own_executor :: "nat option"
  own_context :: "val ctxt option"

definition sync_to_async_init :: "callable \<Rightarrow> bool \<Rightarrow> nat option \<Rightarrow> val ctxt option \<Rightarrow> exn + sync_to_async" where
  "sync_to_async_init func sensitive executor context = (
     if \<not> is_callable func \<or> is_coroutine_function func \<or>
        (\<not> directly_introspectable func \<and> call_is_coroutine_function func)
     then Inl TypeError
     else if sensitive \<and> executor \<noteq> None then Inl TypeError
     else Inr \<lparr>thread_sensitive = sensitive, own_executor = executor, own_context = context\<rparr>)"

text \<open>\<open>AsyncToSync\<close> only warns: true if the warning is given.\<close>

definition async_to_sync_warns :: "callable \<Rightarrow> bool" where
  "async_to_sync_warns awaitable \<longleftrightarrow> \<not> is_callable awaitable \<or>
     (\<not> is_coroutine_function awaitable \<and> \<not> call_is_coroutine_function awaitable)"

section \<open>Choosing the executor\<close>

definition thread_sensitive_var :: cvar where
  "thread_sensitive_var = ContextVar ''thread_sensitive_context'' 2"

definition deadlock_var :: cvar where
  "deadlock_var = ContextVar ''deadlock_context'' 3"

text \<open>
  The awaiting task: the thread of its loop, its frame, the executors registered for loops,
  and the pools of \<open>ThreadSensitiveContext\<close>s.
\<close>

record task =
  loop_thread :: tid
  this_loop :: loop
  frame :: "val frame"
  loop_executors :: "loop \<Rightarrow> nat option"
  pools :: mgr

datatype runner = OnCurrent nat | OnPool pool | OnLoopThread nat | OnSingleThread | OnGiven nat | OnDefault

text \<open>Only \<open>AsyncToSync\<close> writes \<open>executors.current\<close>: an executor or \<open>None\<close>.\<close>

definition parent_executor :: "task \<Rightarrow> nat option" where
  "parent_executor s = (case current_of (loop_thread s) (frame s) of VExecutor e \<Rightarrow> Some e | _ \<Rightarrow> None)"

definition sensitive_manager :: "task \<Rightarrow> obj option" where
  "sensitive_manager s = (case dict_get (ctx (frame s)) thread_sensitive_var of
     Some (CUser (VManager x)) \<Rightarrow> Some x | _ \<Rightarrow> None)"

definition deadlock_flag :: "task \<Rightarrow> bool" where
  "deadlock_flag s \<longleftrightarrow> dict_get (ctx (frame s)) deadlock_var = Some (CUser (VBool True))"

definition set_deadlock :: "bool \<Rightarrow> task \<Rightarrow> task" where
  "set_deadlock b s = s\<lparr>frame := (frame s)\<lparr>ctx := dict_set deadlock_var (CUser (VBool b)) (ctx (frame s))\<rparr>\<rparr>"

definition select_executor :: "sync_to_async \<Rightarrow> (task, runner) py" where
  "select_executor self = (\<lambda>s. if thread_sensitive self
     then (case parent_executor s of
        Some e \<Rightarrow> (Inr (OnCurrent e), s)
      | None \<Rightarrow> (case sensitive_manager s of
          Some x \<Rightarrow> (case context_executor x (pools s) of (p, m) \<Rightarrow> (Inr (OnPool p), s\<lparr>pools := m\<rparr>))
        | None \<Rightarrow> (case loop_executors s (this_loop s) of
            Some e \<Rightarrow> (Inr (OnLoopThread e), s)
          | None \<Rightarrow> if deadlock_flag s then (Inl RuntimeError, s)
                    else (Inr OnSingleThread, set_deadlock True s))))
     else (Inr (case own_executor self of Some e \<Rightarrow> OnGiven e | None \<Rightarrow> OnDefault), s))"

section \<open>On the worker thread\<close>

text \<open>
  What the call meets outside the package: which thread runs the jobs of an executor, whether
  the executor takes the job, the process id, the exception being handled, whether a context
  passed in is already entered elsewhere, and what the function does.
\<close>

record interruption =
  parent_task :: "(exn + unit) option" \<comment> \<open>\<open>task_context[0]\<close> and the end of \<open>await task\<close>\<close>
  exec_done :: bool
  cancelled_again :: bool \<comment> \<open>a second cancellation during \<open>await exec_coro\<close>\<close>
  partial :: "val frame" \<comment> \<open>the context of a function that is still running or never ran\<close>

record 'r sync_env =
  worker_of :: "runner \<Rightarrow> tid"
  refuses :: "runner \<Rightarrow> exn option"
  os_pid :: nat
  in_handler :: "exn option"
  entered :: bool
  child :: "exn option \<Rightarrow> threadlocal \<Rightarrow> val frame \<Rightarrow> (exn + 'r) \<times> val frame"
  interrupted :: "interruption option"

text \<open>
  \<open>thread_handler\<close> sets the thread's \<open>threadlocal\<close> and runs \<open>func\<close> inside an exception
  handler where the caller was in one; \<open>run_child\<close> restores the context onto itself, which
  re-homes its \<open>Local\<close> storage to the worker.
\<close>

definition run_child :: "(val \<Rightarrow> val \<Rightarrow> bool) \<Rightarrow> tid \<Rightarrow> (val frame \<Rightarrow> (exn + 'r) \<times> val frame) \<Rightarrow>
    val frame \<Rightarrow> (exn + 'r) \<times> val frame" where
  "run_child veq t body f = (case restore_context veq t (mem f) (ctx f) (ctx f) of
     (Inl e, c) \<Rightarrow> (Inl e, f\<lparr>ctx := c\<rparr>)
   | (Inr _, c) \<Rightarrow> body (f\<lparr>ctx := c\<rparr>))"

definition thread_handler :: "(val \<Rightarrow> val \<Rightarrow> bool) \<Rightarrow> loop \<Rightarrow> 'r sync_env \<Rightarrow> tid \<Rightarrow> val frame \<Rightarrow>
    (exn + 'r) \<times> val frame" where
  "thread_handler veq lp env t f = (let th = \<lparr>main_event_loop_pid = Some (os_pid env),
       main_event_loop = Some lp, task_context = Some []\<rparr>
     in if entered env then (Inl RuntimeError, f)
        else run_child veq t (child env (in_handler env) th) f)"

section \<open>Waiting and cancellation\<close>

text \<open>
  \<open>await shield(exec_coro)\<close> was cancelled: the task of a nested \<open>AsyncToSync\<close>, if there is
  one, is cancelled first and awaited; only if it does not end normally the parent is cancelled.
\<close>

fun cancel_parent :: "(exn + unit) option \<Rightarrow> exn + bool" where
  "cancel_parent None = Inr True"
| "cancel_parent (Some (Inr _)) = Inr False"
| "cancel_parent (Some (Inl e)) = (if e = CancelledError \<or> e = IndexError then Inr True else Inl e)"

definition after_cancel :: "interruption \<Rightarrow> exn + 'r \<Rightarrow> exn + 'r" where
  "after_cancel k r = (case cancel_parent (parent_task k) of
     Inl e \<Rightarrow> Inl e
   | Inr cp \<Rightarrow> if exec_done k then Inl CancelledError
               else if cp then Inl CancelledError
               else if cancelled_again k then Inl CancelledError
               else r)"

text \<open>The context the \<open>finally\<close> block finds: final if the function has finished by then.\<close>

definition context_left :: "interruption \<Rightarrow> val frame \<Rightarrow> val frame" where
  "context_left k f = (if exec_done k \<or> (cancel_parent (parent_task k) = Inr False \<and> \<not> cancelled_again k)
     then f else partial k)"

section \<open>The call\<close>

definition give_back :: "(val \<Rightarrow> val \<Rightarrow> bool) \<Rightarrow> sync_to_async \<Rightarrow> val frame \<Rightarrow> (task, unit) py" where
  "give_back veq self f = (\<lambda>s.
     case (if own_context self = None
           then restore_context veq (loop_thread s) (mem f) (ctx f) (ctx (frame s))
           else (Inr (), ctx (frame s))) of
       (Inl e, c) \<Rightarrow> (Inl e, s\<lparr>frame := \<lparr>mem = mem f, ctx = c\<rparr>\<rparr>)
     | (Inr _, c) \<Rightarrow> (Inr (), set_deadlock False (s\<lparr>frame := \<lparr>mem = mem f, ctx = c\<rparr>\<rparr>)))"

definition sync_to_async_call :: "(val \<Rightarrow> val \<Rightarrow> bool) \<Rightarrow> sync_to_async \<Rightarrow> 'r sync_env \<Rightarrow> (task, 'r) py" where
  "sync_to_async_call veq self env = (\<lambda>s. case select_executor self s of
     (Inl e, s') \<Rightarrow> (Inl e, s')
   | (Inr ex, s1) \<Rightarrow> (case refuses env ex of
        Some e \<Rightarrow> (Inl e, s1)
      | None \<Rightarrow>
         (let c = (case own_context self of None \<Rightarrow> ctx (frame s1) | Some c \<Rightarrow> c)
          in case thread_handler veq (this_loop s1) env (worker_of env ex) \<lparr>mem = mem (frame s1), ctx = c\<rparr> of
             (r, f) \<Rightarrow>
               (case (case interrupted env of None \<Rightarrow> (r, f) | Some k \<Rightarrow> (after_cancel k r, context_left k f)) of
                  (out, left) \<Rightarrow>
                    (case give_back veq self left s1 of
                       (Inl e, s2) \<Rightarrow> (Inl e, s2)
                     | (Inr _, s2) \<Rightarrow> (out, s2))))))"

end
