(* ===== verification/Sync_Properties.thy ===== *)
theory Sync_Properties
  imports Sync_To_Async Async_Properties
begin

text \<open>
  Properties of \<open>SyncToAsync\<close>: where functions run, what they see of the caller's context and
  what the caller sees of theirs, cancellation, and the deadlock flag.
\<close>

section \<open>Where thread-sensitive functions run\<close>

text \<open>The executor choice depends only on what a task can see; this is that view.\<close>

definition same_view :: "task \<Rightarrow> task \<Rightarrow> bool" where
  "same_view s t \<longleftrightarrow> parent_executor s = parent_executor t \<and> sensitive_manager s = sensitive_manager t \<and>
     loop_executors s (this_loop s) = loop_executors t (this_loop t)"

text \<open>Thread-sensitive functions of one context never run in parallel. If a thread-sensitive call
  gets an executor, every later thread-sensitive call that sees the same parent executor,
  manager and loop executor, and the same pools, gets the same single-threaded one, unless it is
  refused because the first is still using the process-wide thread.\<close>

theorem thread_sensitive_calls_share_a_thread:
  assumes "thread_sensitive a" and "thread_sensitive b"
    and "select_executor a s = (Inr x, s1)" and "same_view s t" and "pools t = pools s1"
  shows "fst (select_executor b t) = Inr x \<or> (fst (select_executor b t) = Inl RuntimeError \<and> deadlock_flag t)"
  using assms
  by (auto simp: select_executor_def same_view_def context_executor_def
      split: option.splits if_splits prod.splits)

theorem thread_sensitive_calls_share_a_thread_witness:
  "fst (select_executor \<lparr>thread_sensitive = True, own_executor = None, own_context = None\<rparr>
     \<lparr>loop_thread = 1, this_loop = 0, frame = pframe (demo_call [(thread_sensitive_var, CUser (VManager 4))] (\<lambda>_. [])),
      loop_executors = (\<lambda>_. None),
      pools = new_mgr\<lparr>to_executor := (\<lambda>_. None)(4 \<mapsto> 0), next_pool := 1\<rparr>\<rparr>) = Inr (OnPool 0)"
proof -
  let ?a = "\<lparr>thread_sensitive = True, own_executor = None, own_context = None\<rparr> :: sync_to_async"
  let ?f = "pframe (demo_call [(thread_sensitive_var, CUser (VManager 4))] (\<lambda>_. []))"
  let ?s = "\<lparr>loop_thread = 1, this_loop = 0, frame = ?f, loop_executors = (\<lambda>_. None), pools = new_mgr\<rparr>"
  let ?t = "?s\<lparr>pools := new_mgr\<lparr>to_executor := (\<lambda>_. None)(4 \<mapsto> 0), next_pool := 1\<rparr>\<rparr>"
  have none: "parent_executor ?s = None" "parent_executor ?t = None"
    "sensitive_manager ?s = Some 4" "sensitive_manager ?t = Some 4" "\<not> deadlock_flag ?t"
    by (simp_all add: parent_executor_def current_of_def local_look_data demo_call_def executors_var_def
        thread_sensitive_var_def local_cvar_name_def sensitive_manager_def deadlock_flag_def deadlock_var_def)
  then have "select_executor ?a ?s = (Inr (OnPool 0), ?t)"
    by (simp add: select_executor_def context_executor_def new_mgr_def)
  moreover have "same_view ?s ?t" using none by (simp add: same_view_def)
  ultimately show ?thesis
    using thread_sensitive_calls_share_a_thread [of ?a ?a ?s "OnPool 0" ?t ?t] none(5) by simp
qed

text \<open>Under \<open>async_to_sync\<close>, thread-sensitive functions come back to the calling thread. A
  thread-sensitive \<open>sync_to_async\<close> in the awaitable of a call picks the \<open>CurrentThreadExecutor\<close>
  that this very call pushed, whichever loop runs the awaitable and whatever managers are active.\<close>

theorem sync_to_async_returns_to_calling_thread:
  assumes "reflp veq" and "\<And>v e. veq v (VExecutor e) \<Longrightarrow> v = VExecutor e"
    and "\<forall>a. dict_ok (dicts (mem (pframe s)) a)"
    and "movable (ctx (pframe s))" and "dict_ok (ctx (pframe s))"
    and "loop_thread k = loop_tid env s" and "frame k = begins veq env s" and "thread_sensitive self"
  shows "select_executor self k = (Inr (OnCurrent (next_exec s)), k)"
  using begins_with_own_executor [OF assms(1-5), of env] assms(6-8)
  by (simp add: select_executor_def parent_executor_def)

theorem sync_to_async_returns_to_calling_thread_witness:
  "fst (select_executor \<lparr>thread_sensitive = True, own_executor = None, own_context = None\<rparr>
     \<lparr>loop_thread = 4, this_loop = 6, frame = begins (=) (demo_env True) (demo_call [] (\<lambda>_. [])),
      loop_executors = (\<lambda>_. None), pools = new_mgr\<rparr>) = Inr (OnCurrent 3)"
proof -
  let ?k = "\<lparr>loop_thread = 4, this_loop = 6, frame = begins (=) (demo_env True) (demo_call [] (\<lambda>_. [])),
      loop_executors = (\<lambda>_. None), pools = new_mgr\<rparr>"
  have "loop_thread ?k = loop_tid (demo_env True) (demo_call [] (\<lambda>_. []))"
    by (simp add: loop_tid_def in_parent_loop_def resolve_loop_def demo_env_def)
  from sync_to_async_returns_to_calling_thread [of "(=)" "demo_call [] (\<lambda>_. [])" ?k, OF _ _ _ _ _ this]
  show ?thesis by (simp add: demo_call_def movable_def reflp_def)
qed

section \<open>Context across the thread boundary\<close>

text \<open>The frame on which the function starts in the worker thread \<open>t\<close>.\<close>

definition worker_frame :: "(val \<Rightarrow> val \<Rightarrow> bool) \<Rightarrow> tid \<Rightarrow> val frame \<Rightarrow> val frame" where
  "worker_frame veq t f = f\<lparr>ctx := snd (restore_context veq t (mem f) (ctx f) (ctx f))\<rparr>"

lemma run_child_runs:
  assumes "movable (ctx f)" and "dict_ok (ctx f)"
  shows "run_child veq t body f = body (worker_frame veq t f)"
  using restore_context_returns [OF assms, of veq t "mem f" "ctx f"]
  by (cases "restore_context veq t (mem f) (ctx f) (ctx f)") (simp add: run_child_def worker_frame_def)

lemma worker_frame_local:
  assumes "reflp veq" and "\<forall>a. dict_ok (dicts (mem f) a)" and "movable (ctx f)" and "dict_ok (ctx f)"
    and "cvar_name x = local_cvar_name" and "dict_get (ctx f) x = Some (CTuple [EIdent i, EDict a])"
  shows "look_eq veq (local_look t x (worker_frame veq t f)) (local_look i x f)"
  using restore_local_look [OF assms, of t "ctx f"] assms(6)
  by (cases f) (simp add: worker_frame_def local_look_data [of i])

lemma worker_frame_get:
  assumes "movable (ctx f)" and "dict_ok (ctx f)" and "cvar_name x \<noteq> local_cvar_name"
  shows "dict_get (ctx (worker_frame veq t f)) x = dict_get (ctx f) x"
  using restore_context_get_eq [OF assms(1,2), of veq t "mem f" "ctx f" x] assms(3)
  by (simp add: worker_frame_def settled_def split: option.split)

lemma give_back_returns:
  assumes "own_context self = None" and "movable (ctx f)" and "dict_ok (ctx f)"
  shows "give_back veq self f s = (Inr (), set_deadlock False (s\<lparr>frame := \<lparr>mem = mem f,
    ctx = snd (restore_context veq (loop_thread s) (mem f) (ctx f) (ctx (frame s)))\<rparr>\<rparr>))"
  using restore_context_returns [OF assms(2,3), of veq "loop_thread s" "mem f" "ctx (frame s)"] assms(1)
  by (cases "restore_context veq (loop_thread s) (mem f) (ctx f) (ctx (frame s))") (simp add: give_back_def)

lemma select_same_thread:
  "select_executor self s = (r, s1) \<Longrightarrow> loop_thread s1 = loop_thread s \<and> this_loop s1 = this_loop s \<and>
     mem (frame s1) = mem (frame s) \<and>
     (\<forall>x. x \<noteq> deadlock_var \<longrightarrow> dict_get (ctx (frame s1)) x = dict_get (ctx (frame s)) x) \<and>
     (movable (ctx (frame s)) \<longrightarrow> movable (ctx (frame s1))) \<and>
     (dict_ok (ctx (frame s)) \<longrightarrow> dict_ok (ctx (frame s1)))"
  by (auto simp: select_executor_def set_deadlock_def movable_def intro!: movable_set [unfolded movable_def]
      split: if_splits option.splits prod.splits)

lemma deadlock_var_other [simp]: "cvar_name deadlock_var \<noteq> local_cvar_name"
  by (simp add: deadlock_var_def local_cvar_name_def)

lemma set_deadlock_look:
  "x \<noteq> deadlock_var \<Longrightarrow> local_look i x (frame (set_deadlock b s)) = local_look i x (frame s)"
  by (simp add: local_look_data set_deadlock_def split: option.split)

text \<open>The handler state that the function finds in its thread.\<close>

definition worker_local :: "'r sync_env \<Rightarrow> task \<Rightarrow> threadlocal" where
  "worker_local env s = \<lparr>main_event_loop_pid = Some (os_pid env), main_event_loop = Some (this_loop s),
     task_context = Some []\<rparr>"

lemma call_runs:
  assumes "own_context self = None" and "select_executor self s = (Inr ex, s1)"
    and "refuses env ex = None" and "\<not> entered env" and "interrupted env = None"
    and "movable (ctx (frame s))" and "dict_ok (ctx (frame s))"
    and "child env (in_handler env) (worker_local env s) (worker_frame veq (worker_of env ex) (frame s1)) = (r, f)"
    and "movable (ctx f)" and "dict_ok (ctx f)"
  shows "sync_to_async_call veq self env s = (r, set_deadlock False (s1\<lparr>frame := \<lparr>mem = mem f,
    ctx = snd (restore_context veq (loop_thread s) (mem f) (ctx f) (ctx (frame s1)))\<rparr>\<rparr>))"
proof -
  note same = select_same_thread [OF assms(2)]
  have ok: "movable (ctx (frame s1))" "dict_ok (ctx (frame s1))" using same assms(6,7) by blast+
  have handler: "thread_handler veq (this_loop s) env (worker_of env ex) (frame s1) = (r, f)"
    using assms(4,8) same by (simp add: thread_handler_def worker_local_def run_child_runs [OF ok])
  have fr: "\<lparr>mem = mem (frame s), ctx = ctx (frame s1)\<rparr> = frame s1" using same by (cases "frame s1") simp
  have "thread_handler veq (this_loop s) env (worker_of env ex)
      \<lparr>mem = mem (frame s), ctx = ctx (frame s1)\<rparr> = (r, f)"
    unfolding fr by (rule handler)
  then show ?thesis
    using assms(1-3,5) same give_back_returns [OF assms(1,9,10), of veq s1]
    by (simp add: sync_to_async_call_def Let_def)
qed

text \<open>What the worker reads, and what the task reads afterwards.\<close>

lemma worker_reads:
  assumes "reflp veq" and "\<forall>a. dict_ok (dicts (mem (frame s)) a)" and "movable (ctx (frame s))"
    and "dict_ok (ctx (frame s))" and "select_executor self s = (Inr ex, s1)" and "cvar_name x = local_cvar_name"
    and "dict_get (ctx (frame s)) x = Some (CTuple [EIdent (loop_thread s), EDict a])"
  shows "look_eq veq (local_look w x (worker_frame veq w (frame s1))) (local_look (loop_thread s) x (frame s))"
proof -
  note same = select_same_thread [OF assms(5)]
  have ok: "movable (ctx (frame s1))" "dict_ok (ctx (frame s1))" "\<forall>a. dict_ok (dicts (mem (frame s1)) a)"
    using same assms(2-4) by simp_all
  have "x \<noteq> deadlock_var" using assms(6) deadlock_var_other by auto
  with same have at: "dict_get (ctx (frame s1)) x = dict_get (ctx (frame s)) x" by simp
  then have "local_look (loop_thread s) x (frame s1) = local_look (loop_thread s) x (frame s)"
    using same by (simp add: local_look_data split: option.split)
  with worker_frame_local [OF assms(1) ok(3,1,2) assms(6), of "loop_thread s" a] at assms(7) show ?thesis by simp
qed

lemma task_reads:
  assumes "reflp veq" and "\<forall>a. dict_ok (dicts (mem f) a)" and "movable (ctx f)" and "dict_ok (ctx f)"
    and "cvar_name x = local_cvar_name" and "dict_get (ctx f) x = Some (CTuple [EIdent w, EDict a])"
  shows "look_eq veq (local_look t x \<lparr>mem = mem f, ctx = snd (restore_context veq t (mem f) (ctx f) c)\<rparr>)
    (local_look w x f)"
  using restore_local_look [OF assms] assms(6) by (simp add: local_look_data)

text \<open>C7: \<open>sync_to_async\<close> carries the context to the worker and back. A call that is neither refused
  nor cancelled returns the function's outcome; the function reads, in every \<open>Local\<close>, what the
  awaiting task reads, and finds the task's other variables unchanged; afterwards the task reads in every
  \<open>Local\<close> that the function's thread owned at its end what the function read there, and its
  other variables have the function's values; the deadlock flag is down.\<close>

theorem sync_to_async_round_trip:
  assumes "reflp veq" and "\<forall>a. dict_ok (dicts (mem (frame s)) a)"
    and "movable (ctx (frame s))" and "dict_ok (ctx (frame s))"
    and "own_context self = None" and "select_executor self s = (Inr ex, s1)"
    and "refuses env ex = None" and "\<not> entered env" and "interrupted env = None"
    and "child env (in_handler env) (worker_local env s) (worker_frame veq (worker_of env ex) (frame s1)) = (r, f)"
    and "movable (ctx f)" and "dict_ok (ctx f)" and "\<forall>a. dict_ok (dicts (mem f) a)"
    and "cvar_name x = local_cvar_name" and "cvar_name y \<noteq> local_cvar_name" and "y \<noteq> deadlock_var"
  shows "\<exists>s2. sync_to_async_call veq self env s = (r, s2) \<and> \<not> deadlock_flag s2 \<and>
    (\<forall>a. dict_get (ctx (frame s)) x = Some (CTuple [EIdent (loop_thread s), EDict a]) \<longrightarrow>
       look_eq veq (local_look (worker_of env ex) x (worker_frame veq (worker_of env ex) (frame s1)))
         (local_look (loop_thread s) x (frame s))) \<and>
    dict_get (ctx (worker_frame veq (worker_of env ex) (frame s1))) y = dict_get (ctx (frame s)) y \<and>
    (\<forall>a. dict_get (ctx f) x = Some (CTuple [EIdent (worker_of env ex), EDict a]) \<longrightarrow>
       look_eq veq (local_look (loop_thread s) x (frame s2)) (local_look (worker_of env ex) x f)) \<and>
    dict_get (ctx (frame s2)) y = (case dict_get (ctx f) y of
        None \<Rightarrow> dict_get (ctx (frame s)) y
      | Some v \<Rightarrow> Some (settled veq (mem f) (dict_get (ctx (frame s)) y) v))"
proof -
  note same = select_same_thread [OF assms(6)]
  have ok: "movable (ctx (frame s1))" "dict_ok (ctx (frame s1))" using same assms(3,4) by simp_all
  have x: "x \<noteq> deadlock_var" using assms(14) deadlock_var_other by auto
  let ?c = "snd (restore_context veq (loop_thread s) (mem f) (ctx f) (ctx (frame s1)))"
  let ?s2 = "set_deadlock False (s1\<lparr>frame := \<lparr>mem = mem f, ctx = ?c\<rparr>\<rparr>)"
  have "sync_to_async_call veq self env s = (r, ?s2)"
    using assms(5-9,3,4,10-12) by (rule call_runs)
  moreover have "\<not> deadlock_flag ?s2" by (simp add: deadlock_flag_def set_deadlock_def)
  moreover have "look_eq veq (local_look (worker_of env ex) x (worker_frame veq (worker_of env ex) (frame s1)))
         (local_look (loop_thread s) x (frame s))"
    if "dict_get (ctx (frame s)) x = Some (CTuple [EIdent (loop_thread s), EDict a])" for a
    using worker_reads [OF assms(1-4,6,14) that] .
  moreover have "dict_get (ctx (worker_frame veq (worker_of env ex) (frame s1))) y = dict_get (ctx (frame s)) y"
    using worker_frame_get [OF ok assms(15)] same assms(16) by simp
  moreover have "look_eq veq (local_look (loop_thread s) x (frame ?s2)) (local_look (worker_of env ex) x f)"
    if "dict_get (ctx f) x = Some (CTuple [EIdent (worker_of env ex), EDict a])" for a
    using task_reads [OF assms(1,13,11,12,14) that] by (simp add: set_deadlock_look [OF x])
  moreover have "dict_get (ctx (frame ?s2)) y = (case dict_get (ctx f) y of
        None \<Rightarrow> dict_get (ctx (frame s)) y
      | Some v \<Rightarrow> Some (settled veq (mem f) (dict_get (ctx (frame s)) y) v))"
    using restore_context_get_eq [OF assms(11,12), of veq "loop_thread s" "mem f" "ctx (frame s1)" y]
      same assms(15,16) by (simp add: set_deadlock_def split: option.split)
  ultimately show ?thesis by blast
qed

text \<open>A task on thread 1 that owns storage of one \<open>Local\<close>, and a function that writes to it.\<close>

definition work_var :: cvar where
  "work_var = ContextVar local_cvar_name 8"

definition demo_task :: "val ctxt \<Rightarrow> task" where
  "demo_task c = \<lparr>loop_thread = 1, this_loop = 6,
     frame = \<lparr>mem = \<lparr>dicts = (\<lambda>_. [])(0 := [(''k'', VUser 3)]), next_addr = 1\<rparr>, ctx = c\<rparr>,
     loop_executors = (\<lambda>_. None), pools = new_mgr\<rparr>"

definition demo_sync :: "bool \<Rightarrow> sync_to_async" where
  "demo_sync b = \<lparr>thread_sensitive = b, own_executor = None, own_context = None\<rparr>"

definition demo_job :: "(val frame \<Rightarrow> val frame) \<Rightarrow> interruption option \<Rightarrow> nat sync_env" where
  "demo_job g k = \<lparr>worker_of = (\<lambda>_. 2), refuses = (\<lambda>_. None), os_pid = 10, in_handler = None, entered = False,
     child = (\<lambda>exc th f. (Inr 7, g f)), interrupted = k\<rparr>"

lemmas demo_sync_defs = demo_task_def demo_sync_def demo_job_def work_var_def deadlock_var_def
  thread_sensitive_var_def executors_var_def local_cvar_name_def select_executor_def parent_executor_def
  sensitive_manager_def deadlock_flag_def set_deadlock_def

lemmas sync_call_defs = sync_to_async_call_def thread_handler_def run_child_def give_back_def
  restore_one_def moved_value_def rehome_def py_simps current_of_def local_look_data local_put_def
  local_setattr_def own_slots_def publish_def new_dict_def Let_def after_cancel_def context_left_def

theorem sync_to_async_round_trip_witness:
  "\<exists>s2. sync_to_async_call (=) (demo_sync False) (demo_job (local_put 2 work_var ''k'' (VUser 4)) None)
      (demo_task [(work_var, CTuple [EIdent 1, EDict 0])]) = (Inr 7, s2) \<and>
    look_eq (=) (local_look 1 work_var (frame s2)) [''k'' \<mapsto> VUser 4]"
proof -
  let ?s = "demo_task [(work_var, CTuple [EIdent 1, EDict 0])]"
  let ?env = "demo_job (local_put 2 work_var ''k'' (VUser 4)) None"
  let ?f = "\<lparr>mem = \<lparr>dicts = (\<lambda>_. [])(0 := [(''k'', VUser 3)], 1 := [(''k'', VUser 4)]), next_addr = 2\<rparr>,
      ctx = [(work_var, CTuple [EIdent 2, EDict 1])]\<rparr>"
  have sel: "select_executor (demo_sync False) ?s = (Inr OnDefault, ?s)"
    by (simp add: demo_sync_def select_executor_def)
  have child: "child ?env (in_handler ?env) (worker_local ?env ?s)
      (worker_frame (=) (worker_of ?env OnDefault) (frame ?s)) = (Inr 7, ?f)"
    by (simp add: demo_sync_defs sync_call_defs worker_frame_def)
  have ok: "movable (ctx (frame ?s))" "dict_ok (ctx (frame ?s))" "movable (ctx ?f)" "dict_ok (ctx ?f)"
    "\<forall>a. dict_ok (dicts (mem (frame ?s)) a)" "\<forall>a. dict_ok (dicts (mem ?f) a)"
    "cvar_name work_var = local_cvar_name" "cvar_name user_var \<noteq> local_cvar_name" "user_var \<noteq> deadlock_var"
    by (simp_all add: demo_task_def movable_def dict_ok_def work_var_def user_var_def local_cvar_name_def
        deadlock_var_def)
  have env: "own_context (demo_sync False) = None" "refuses ?env OnDefault = None" "\<not> entered ?env"
    "interrupted ?env = None" "reflp ((=) :: val \<Rightarrow> val \<Rightarrow> bool)"
    by (simp_all add: demo_sync_def demo_job_def reflp_def)
  obtain s2 where s2: "sync_to_async_call (=) (demo_sync False) ?env ?s = (Inr 7, s2)"
    and look: "\<forall>a. dict_get (ctx ?f) work_var = Some (CTuple [EIdent (worker_of ?env OnDefault), EDict a]) \<longrightarrow>
       look_eq (=) (local_look (loop_thread ?s) work_var (frame s2)) (local_look (worker_of ?env OnDefault) work_var ?f)"
    using sync_to_async_round_trip [OF env(5) ok(5,1,2) env(1) sel env(2-4) child ok(3,4,6,7,8,9)] by blast
  from look [rule_format, of 1] have "look_eq (=) (local_look 1 work_var (frame s2)) (local_look 2 work_var ?f)"
    by (simp add: demo_job_def demo_task_def)
  moreover have "local_look 2 work_var ?f = [''k'' \<mapsto> VUser 4]" by (simp add: local_look_data)
  ultimately show ?thesis using s2 by auto
qed

text \<open>A function given its own context leaves the task alone. With \<open>context\<close> passed in, the
  task's context afterwards differs at most in the deadlock flag, which is down; the function starts
  from the given context, not the task's.\<close>

theorem given_context_isolates:
  assumes "own_context self = Some c" and "select_executor self s = (Inr ex, s1)"
    and "refuses env ex = None" and "\<not> entered env" and "interrupted env = None"
    and "movable c" and "dict_ok c"
  shows "\<exists>r f s2. child env (in_handler env) (worker_local env s)
      (worker_frame veq (worker_of env ex) \<lparr>mem = mem (frame s), ctx = c\<rparr>) = (r, f) \<and>
    sync_to_async_call veq self env s = (r, s2) \<and>
    (\<forall>x. x \<noteq> deadlock_var \<longrightarrow> dict_get (ctx (frame s2)) x = dict_get (ctx (frame s)) x) \<and>
    \<not> deadlock_flag s2"
proof -
  note same = select_same_thread [OF assms(2)]
  obtain r f where rf: "child env (in_handler env) (worker_local env s)
      (worker_frame veq (worker_of env ex) \<lparr>mem = mem (frame s), ctx = c\<rparr>) = (r, f)" by fastforce
  have ok: "movable (ctx \<lparr>mem = mem (frame s), ctx = c\<rparr>)" "dict_ok (ctx \<lparr>mem = mem (frame s), ctx = c\<rparr>)"
    using assms(6,7) by simp_all
  have "sync_to_async_call veq self env s =
      (r, set_deadlock False (s1\<lparr>frame := \<lparr>mem = mem f, ctx = ctx (frame s1)\<rparr>\<rparr>))"
    using assms(1-5) same rf
    by (simp add: sync_to_async_call_def thread_handler_def run_child_runs [OF ok] worker_local_def
        give_back_def Let_def)
  with rf same show ?thesis by (simp add: set_deadlock_def deadlock_flag_def)
qed

theorem given_context_isolates_witness:
  "\<exists>s2. sync_to_async_call (=) \<lparr>thread_sensitive = False, own_executor = None, own_context = Some []\<rparr>
      (demo_job (\<lambda>f. f\<lparr>ctx := dict_set user_var (CUser (VUser 4)) (ctx f)\<rparr>) None) (demo_task []) = (Inr 7, s2) \<and>
    dict_get (ctx (frame s2)) user_var = None"
proof -
  let ?self = "\<lparr>thread_sensitive = False, own_executor = None, own_context = Some []\<rparr> :: sync_to_async"
  let ?env = "demo_job (\<lambda>f. f\<lparr>ctx := dict_set user_var (CUser (VUser 4)) (ctx f)\<rparr>) None"
  have "select_executor ?self (demo_task []) = (Inr OnDefault, demo_task [])"
    by (simp add: select_executor_def)
  from given_context_isolates [of ?self "[]" "demo_task []" OnDefault "demo_task []" ?env "(=)"] this
  show ?thesis by (auto simp: demo_job_def movable_def demo_task_def user_var_def deadlock_var_def)
qed

section \<open>Cancellation\<close>

text \<open>Cancelling a \<open>sync_to_async\<close> call. When the await is cancelled while the function still
  runs: with no nested \<open>async_to_sync\<close> task, or one that ends cancelled, the call raises
  \<open>CancelledError\<close> at once; when the nested task ends normally, the call waits and gives the
  function's own outcome (unless cancelled again); any other error of the nested task replaces both.\<close>

theorem cancellation_outcome:
  assumes "own_context self = Some c" and "select_executor self s = (Inr ex, s1)"
    and "refuses env ex = None" and "interrupted env = Some k" and "\<not> exec_done k"
  shows "fst (sync_to_async_call veq self env s) = (case parent_task k of
      None \<Rightarrow> Inl CancelledError
    | Some (Inl e) \<Rightarrow> Inl (if e = IndexError then CancelledError else e)
    | Some (Inr _) \<Rightarrow> if cancelled_again k then Inl CancelledError
        else fst (thread_handler veq (this_loop s) env (worker_of env ex) \<lparr>mem = mem (frame s), ctx = c\<rparr>))"
  using assms select_same_thread [OF assms(2)]
  by (cases "thread_handler veq (this_loop s) env (worker_of env ex) \<lparr>mem = mem (frame s), ctx = c\<rparr>")
    (auto simp: sync_to_async_call_def after_cancel_def give_back_def Let_def split: option.splits sum.splits)

definition demo_interruption :: "(exn + unit) option \<Rightarrow> interruption" where
  "demo_interruption p = \<lparr>parent_task = p, exec_done = False, cancelled_again = False,
     partial = \<lparr>mem = \<lparr>dicts = (\<lambda>_. []), next_addr = 0\<rparr>, ctx = []\<rparr>\<rparr>"

theorem cancellation_outcome_witness:
  "fst (sync_to_async_call (=) \<lparr>thread_sensitive = False, own_executor = None, own_context = Some []\<rparr>
      (demo_job id (Some (demo_interruption None))) (demo_task [])) = Inl CancelledError"
proof -
  let ?self = "\<lparr>thread_sensitive = False, own_executor = None, own_context = Some []\<rparr> :: sync_to_async"
  have "select_executor ?self (demo_task []) = (Inr OnDefault, demo_task [])"
    by (simp add: select_executor_def)
  from cancellation_outcome [of ?self "[]" _ OnDefault _ "demo_job id (Some (demo_interruption None))"
      "demo_interruption None" "(=)", OF _ this]
  show ?thesis by (simp add: demo_job_def demo_interruption_def)
qed

section \<open>The deadlock flag\<close>



text \<open>An unrelated call disarms the deadlock detection. Inside a function on the process-wide
  thread (flag up), a call that is not thread-sensitive lowers the flag in its \<open>finally\<close>, so the
  next thread-sensitive call is not refused but queued on the thread it would wait for.\<close>

theorem unrelated_call_disarms_detection:
  "let s = demo_task [(deadlock_var, CUser (VBool True))];
       s2 = snd (sync_to_async_call (=) (demo_sync False) (demo_job id None) s)
   in fst (select_executor (demo_sync True) s) = Inl RuntimeError \<and>
      fst (sync_to_async_call (=) (demo_sync False) (demo_job id None) s) = Inr 7 \<and>
      fst (select_executor (demo_sync True) s2) = Inr OnSingleThread"
  by (simp add: demo_sync_defs sync_call_defs)

text \<open>An error while the context is taken back leaves the flag up. If the function leaves a
  foreign variable with a short tuple under \<open>Local\<close>'s name, the call raises \<open>IndexError\<close>
  and the flag stays, so the next thread-sensitive call is refused although the thread is free.\<close>

theorem failed_take_back_leaves_flag:
  "let g = (\<lambda>f. f\<lparr>ctx := dict_set (ContextVar local_cvar_name 9) (CTuple []) (ctx f)\<rparr>);
       s2 = snd (sync_to_async_call (=) (demo_sync True) (demo_job g None) (demo_task []))
   in fst (sync_to_async_call (=) (demo_sync True) (demo_job g None) (demo_task [])) = Inl IndexError \<and>
      fst (select_executor (demo_sync True) s2) = Inl RuntimeError"
  by (simp add: demo_sync_defs sync_call_defs)

section \<open>Construction\<close>

text \<open>What \<open>sync_to_async\<close> accepts. Construction succeeds exactly for callables that are not
  coroutine functions, nor objects (other than functions, methods, builtins and partials) with a
  coroutine \<open>__call__\<close>, and never with both \<open>thread_sensitive\<close> and an executor; then a
  thread-sensitive call never runs on a given or the default executor.\<close>

theorem construction_and_executor:
  "(\<exists>x. sync_to_async_init func sensitive ex c = Inr x) =
     (is_callable func \<and> \<not> is_coroutine_function func \<and>
      (directly_introspectable func \<or> \<not> call_is_coroutine_function func) \<and> \<not> (sensitive \<and> ex \<noteq> None)) \<and>
   (sync_to_async_init func sensitive ex c = Inr self \<longrightarrow> select_executor self s = (Inr r, s1) \<longrightarrow>
     (r = OnDefault \<or> r = OnGiven (the ex)) = (\<not> sensitive))"
  by (auto simp: sync_to_async_init_def select_executor_def split: option.splits if_splits prod.splits)

theorem construction_and_executor_witness:
  "\<exists>x. sync_to_async_init \<lparr>is_callable = True, is_coroutine_function = False,
     directly_introspectable = True, call_is_coroutine_function = False\<rparr> True None None = Inr x"
  using construction_and_executor [of "\<lparr>is_callable = True, is_coroutine_function = False,
     directly_introspectable = True, call_is_coroutine_function = False\<rparr>" True None None]
  by simp

end
