(* ===== verification/Nested_Calls.thy ===== *)
theory Nested_Calls
  imports Sync_Properties
begin

text \<open>
  Programs in which synchronous and asynchronous code call each other to any depth through
  \<open>async_to_sync\<close> and \<open>sync_to_async\<close>. Their meaning is given twice: with the models of
  \<open>AsyncToSync.__call__\<close> and \<open>SyncToAsync.__call__\<close> at every crossing, and as a sequential
  program with one namespace per \<open>Local\<close>, in which every block is assigned a thread.
\<close>

section \<open>Programs\<close>

text \<open>
  What code does between crossings: ask for its thread; read, assign and delete attributes of a
  \<open>Local\<close>; read and set a context variable; look at the exception being handled; raise.
\<close>

datatype action =
    Ident | GetAttr nat string | SetAttr nat string nat | DelAttr nat string
  | GetVar nat | SetVar nat nat | ExcInfo | Throw exn

text \<open>
  \<open>AsyncToSync force c\<close>: \<open>AsyncToSync(c, force_new_loop=force)()\<close> in synchronous code.
  \<open>SyncToAsync sensitive c\<close>: \<open>await SyncToAsync(c, thread_sensitive=sensitive)()\<close>. \<open>STry\<close> and
  \<open>ATry\<close>: the second block runs in the \<open>except\<close> clause of the first.
\<close>

datatype sync_code =
    SDo action | SSeq sync_code sync_code | STry sync_code sync_code | AsyncToSync bool async_code
and async_code =
    ADo action | ASeq async_code async_code | ATry async_code async_code | SyncToAsync bool sync_code

text \<open>What a run reports, in order; synchronous and asynchronous code report their thread.\<close>

datatype event = SyncOn tid | AsyncOn tid | Got val | VarIs "nat option" | InHandler "exn option"

text \<open>The users' \<open>Local\<close>s and context variables; \<open>executors\<close> is \<open>Local\<close> number 0.\<close>

definition user_local :: "nat \<Rightarrow> cvar" where
  "user_local n = ContextVar local_cvar_name (Suc n)"

definition user_context_var :: "nat \<Rightarrow> cvar" where
  "user_context_var n = ContextVar ''user'' n"

section \<open>With the package\<close>

fun act :: "(tid \<Rightarrow> event) \<Rightarrow> tid \<Rightarrow> exn option \<Rightarrow> action \<Rightarrow> val frame \<Rightarrow> (exn + event list) \<times> val frame" where
  "act on t exc Ident f = (Inr [on t], f)"
| "act on t exc (GetAttr n k) f = (case local_getattr t (user_local n) k f of
     Inl e \<Rightarrow> (Inl e, f) | Inr v \<Rightarrow> (Inr [Got v], f))"
| "act on t exc (SetAttr n k v) f = (case local_setattr t (user_local n) k (VUser v) f of
     OwnSlot \<Rightarrow> (Inr [], f) | Stored g \<Rightarrow> (Inr [], g))"
| "act on t exc (DelAttr n k) f = (case local_delattr t (user_local n) k f of
     Inl e \<Rightarrow> (Inl e, f) | Inr g \<Rightarrow> (Inr [], g))"
| "act on t exc (GetVar n) f = (Inr [VarIs (case dict_get (ctx f) (user_context_var n) of
     Some (CUser (VUser v)) \<Rightarrow> Some v | _ \<Rightarrow> None)], f)"
| "act on t exc (SetVar n v) f = (Inr [], f\<lparr>ctx := dict_set (user_context_var n) (CUser (VUser v)) (ctx f)\<rparr>)"
| "act on t exc ExcInfo f = (Inr [InHandler exc], f)"
| "act on t exc (Throw e) f = (Inl e, f)"

text \<open>
  The outcome of a block: an exception, or its events; \<open>Inr None\<close> is a block that never
  returns, which everything above it passes on.
\<close>

type_synonym outcome = "exn + event list option"

definition in_turn :: "('s \<Rightarrow> outcome \<times> 's) \<Rightarrow> ('s \<Rightarrow> outcome \<times> 's) \<Rightarrow> 's \<Rightarrow> outcome \<times> 's" where
  "in_turn a b s = (case a s of
     (Inr (Some xs), s1) \<Rightarrow> (case b s1 of
        (Inr (Some ys), s2) \<Rightarrow> (Inr (Some (xs @ ys)), s2)
      | (r, s2) \<Rightarrow> (r, s2))
   | (r, s1) \<Rightarrow> (r, s1))"

definition or_else :: "('s \<Rightarrow> outcome \<times> 's) \<Rightarrow> (exn \<Rightarrow> 's \<Rightarrow> outcome \<times> 's) \<Rightarrow> 's \<Rightarrow> outcome \<times> 's" where
  "or_else a b s = (case a s of (Inl e, s1) \<Rightarrow> b e s1 | (r, s1) \<Rightarrow> (r, s1))"

text \<open>
  The machine: the thread of each loop, the process-wide thread of \<open>thread_sensitive\<close> code, the
  workers of the default pool (one for each depth of nesting), the worker of the executor
  of a \<open>ThreadSensitiveContext\<close>, and the process id. Executors of calls are owned by the thread that
  created them.
\<close>

record host =
  loop_home :: "loop \<Rightarrow> tid"
  single_thread :: tid
  pool_thread :: "nat \<Rightarrow> tid"
  context_thread :: "pool \<Rightarrow> tid"
  os_id :: nat

fun runner_thread :: "host \<Rightarrow> (nat \<Rightarrow> tid) \<Rightarrow> nat \<Rightarrow> runner \<Rightarrow> tid" where
  "runner_thread h own d (OnCurrent e) = own e"
| "runner_thread h own d (OnLoopThread e) = own e"
| "runner_thread h own d OnSingleThread = single_thread h"
| "runner_thread h own d (OnPool p) = context_thread h p"
| "runner_thread h own d _ = pool_thread h d"

definition plain_wrapper :: "bool \<Rightarrow> sync_to_async" where
  "plain_wrapper sensitive = \<lparr>thread_sensitive = sensitive, own_executor = None, own_context = None\<rparr>"

text \<open>
  What the crossings meet. A loop that awaits the calling thread is running and takes callbacks;
  a new loop (number \<open>d\<close> at depth \<open>d\<close>: those of one depth, which never overlap, are not told apart) runs on
  a thread of its own with an empty context. An
  executor takes jobs from every thread but its own, and nothing is cancelled.
\<close>

definition crossing_env :: "host \<Rightarrow> nat \<Rightarrow> bool \<Rightarrow> exn option \<Rightarrow> process \<Rightarrow>
    ((loop \<Rightarrow> nat option) \<Rightarrow> exn option \<Rightarrow> val frame \<Rightarrow> (exn + 'r) \<times> val frame) \<Rightarrow> 'r call_env" where
  "crossing_env h d force exc s body = \<lparr>force_new_loop = force, handled = exc, created = Inr (),
     is_running = (\<lambda>_. True), accepts = (\<lambda>_. True),
     main_tid = (case resolve_loop force (pid s) (tl s) of Some l \<Rightarrow> loop_home h l | None \<Rightarrow> 0),
     worker_tid = loop_home h d, worker_ctx = [], new_loop = d, this_task = d, coro = body\<rparr>"

definition loop_of_call :: "nat \<Rightarrow> bool \<Rightarrow> process \<Rightarrow> loop" where
  "loop_of_call d force s = (case resolve_loop force (pid s) (tl s) of Some l \<Rightarrow> l | None \<Rightarrow> d)"

definition job_env :: "host \<Rightarrow> (nat \<Rightarrow> tid) \<Rightarrow> nat \<Rightarrow> exn option \<Rightarrow> tid \<Rightarrow>
    (exn option \<Rightarrow> threadlocal \<Rightarrow> val frame \<Rightarrow> (exn + 'r) \<times> val frame) \<Rightarrow> 'r sync_env" where
  "job_env h own d exc t body = \<lparr>worker_of = runner_thread h own d,
     refuses = (\<lambda>x. case x of OnCurrent e \<Rightarrow> if own e = t then Some RuntimeError else None
                  | OnLoopThread e \<Rightarrow> if own e = t then Some RuntimeError else None | _ \<Rightarrow> None),
     os_pid = os_id h, in_handler = exc, entered = False, child = body, interrupted = None\<rparr>"

text \<open>
  The thread and the task on which the two kinds of code run. Below a call there is always a calling
  thread, so no executor of a context manager is looked up there, and the tables of
  executors are empty.
\<close>

definition worker_process :: "host \<Rightarrow> tid \<Rightarrow> nat \<Rightarrow> threadlocal \<Rightarrow> task \<Rightarrow> val frame \<Rightarrow> process" where
  "worker_process h t n th k f = \<lparr>me = t, pid = os_id h, running_here = False, tl = th, pframe = f,
     next_exec = n, above = (\<lambda>_. VNone), managers = new_mgr, loop_threads = loop_executors k, busy = []\<rparr>"

definition loop_task :: "host \<Rightarrow> loop \<Rightarrow> (loop \<Rightarrow> nat option) \<Rightarrow> process \<Rightarrow> val frame \<Rightarrow> task" where
  "loop_task h l lts s f = \<lparr>loop_thread = loop_home h l, this_loop = l, frame = f, loop_executors = lts,
     pools = new_mgr\<rparr>"

text \<open>
  A run. \<open>own\<close> are the owners of the executors, \<open>d\<close> is the depth, \<open>n\<close> the next executor (in
  a thread it is part of the state). An executor is referred to only during its call, so numbers
  are used again by later calls.
\<close>

definition sync_action :: "exn option \<Rightarrow> action \<Rightarrow> process \<Rightarrow> outcome \<times> process" where
  "sync_action exc a s = (case act SyncOn (me s) exc a (pframe s) of
     (r, f) \<Rightarrow> (map_sum id Some r, s\<lparr>pframe := f\<rparr>))"

definition async_action :: "exn option \<Rightarrow> action \<Rightarrow> task \<Rightarrow> outcome \<times> task" where
  "async_action exc a k = (case act AsyncOn (loop_thread k) exc a (frame k) of
     (r, f) \<Rightarrow> (map_sum id Some r, k\<lparr>frame := f\<rparr>))"

definition thread_for :: "host \<Rightarrow> (nat \<Rightarrow> tid) \<Rightarrow> nat \<Rightarrow> bool \<Rightarrow> task \<Rightarrow> tid" where
  "thread_for h own d sensitive k = (case fst (select_executor (plain_wrapper sensitive) k) of
     Inr x \<Rightarrow> runner_thread h own d x | Inl _ \<Rightarrow> 0)"

primrec run_sync :: "sync_code \<Rightarrow> host \<Rightarrow> (nat \<Rightarrow> tid) \<Rightarrow> nat \<Rightarrow> exn option \<Rightarrow> process \<Rightarrow> outcome \<times> process"
  and run_async :: "async_code \<Rightarrow> host \<Rightarrow> (nat \<Rightarrow> tid) \<Rightarrow> nat \<Rightarrow> nat \<Rightarrow> exn option \<Rightarrow> task \<Rightarrow> outcome \<times> task" where
  "run_sync (SDo a) h own d exc = sync_action exc a"
| "run_sync (SSeq p q) h own d exc = in_turn (run_sync p h own d exc) (run_sync q h own d exc)"
| "run_sync (STry p q) h own d exc =
     or_else (run_sync p h own d exc) (\<lambda>e. run_sync q h own d (Some e))"
| "run_sync (AsyncToSync force a) h own d exc = (\<lambda>s.
     case async_to_sync_call (=) (crossing_env h d force exc s (\<lambda>lts x f.
         case run_async a h (own(next_exec s := me s)) (Suc d) (Suc (next_exec s)) x
           (loop_task h (loop_of_call d force s) lts s f) of (r, k) \<Rightarrow> (r, frame k))) s of
       None \<Rightarrow> (Inr None, s)
     | Some (r, t) \<Rightarrow> (r, t))"
| "run_async (ADo a) h own d n exc = async_action exc a"
| "run_async (ASeq a b) h own d n exc = in_turn (run_async a h own d n exc) (run_async b h own d n exc)"
| "run_async (ATry a b) h own d n exc =
     or_else (run_async a h own d n exc) (\<lambda>e. run_async b h own d n (Some e))"
| "run_async (SyncToAsync sensitive p) h own d n exc = (\<lambda>k.
     sync_to_async_call (=) (plain_wrapper sensitive) (job_env h own d exc (loop_thread k) (\<lambda>x th f.
       case run_sync p h own d x (worker_process h (thread_for h own d sensitive k) n th k f) of
         (r, s) \<Rightarrow> (r, pframe s))) k)"

section \<open>Without the package\<close>

text \<open>
  The sequential reading: one namespace for each \<open>Local\<close> and one value for each context
  variable, shared by all blocks (\<open>within\<close>: that of the variable of \<open>ThreadSensitiveContext\<close>); \<open>t\<close> is the thread assigned to a synchronous block, \<open>l\<close> the
  loop of an asynchronous one and \<open>owner\<close> the thread of the closest enclosing call.
\<close>

record names =
  attrs :: "nat \<Rightarrow> string \<rightharpoonup> val"
  vars :: "nat \<Rightarrow> nat option"
  within :: "obj option"

fun plain_act :: "(tid \<Rightarrow> event) \<Rightarrow> tid \<Rightarrow> exn option \<Rightarrow> action \<Rightarrow> names \<Rightarrow> (exn + event list) \<times> names" where
  "plain_act on t exc Ident N = (Inr [on t], N)"
| "plain_act on t exc (GetAttr n k) N = (case attrs N n k of None \<Rightarrow> Inl AttributeError | Some v \<Rightarrow> Inr [Got v], N)"
| "plain_act on t exc (SetAttr n k v) N = (Inr [], if k \<in> set own_slots then N
     else N\<lparr>attrs := (attrs N)(n := (attrs N n)(k \<mapsto> VUser v))\<rparr>)"
| "plain_act on t exc (DelAttr n k) N = (case attrs N n k of None \<Rightarrow> (Inl AttributeError, N)
     | Some v \<Rightarrow> (Inr [], N\<lparr>attrs := (attrs N)(n := (attrs N n)(k := None))\<rparr>))"
| "plain_act on t exc (GetVar n) N = (Inr [VarIs (vars N n)], N)"
| "plain_act on t exc (SetVar n v) N = (Inr [], N\<lparr>vars := (vars N)(n \<mapsto> v)\<rparr>)"
| "plain_act on t exc ExcInfo N = (Inr [InHandler exc], N)"
| "plain_act on t exc (Throw e) N = (Inl e, N)"

definition plain_turn :: "('s \<Rightarrow> (exn + event list) \<times> 's) \<Rightarrow> ('s \<Rightarrow> (exn + event list) \<times> 's) \<Rightarrow>
    's \<Rightarrow> (exn + event list) \<times> 's" where
  "plain_turn a b N = (case a N of
     (Inl e, N1) \<Rightarrow> (Inl e, N1)
   | (Inr xs, N1) \<Rightarrow> (case b N1 of (Inl e, N2) \<Rightarrow> (Inl e, N2) | (Inr ys, N2) \<Rightarrow> (Inr (xs @ ys), N2)))"

definition plain_try :: "('s \<Rightarrow> (exn + event list) \<times> 's) \<Rightarrow> (exn \<Rightarrow> 's \<Rightarrow> (exn + event list) \<times> 's) \<Rightarrow>
    's \<Rightarrow> (exn + event list) \<times> 's" where
  "plain_try a b N = (case a N of (Inl e, N1) \<Rightarrow> b e N1 | (Inr xs, N1) \<Rightarrow> (Inr xs, N1))"

primrec plain_sync :: "sync_code \<Rightarrow> host \<Rightarrow> nat \<Rightarrow> loop option \<Rightarrow> tid \<Rightarrow> exn option \<Rightarrow>
    names \<Rightarrow> (exn + event list) \<times> names"
  and plain_async :: "async_code \<Rightarrow> host \<Rightarrow> nat \<Rightarrow> loop \<Rightarrow> tid option \<Rightarrow> exn option \<Rightarrow>
    names \<Rightarrow> (exn + event list) \<times> names" where
  "plain_sync (SDo a) h d parent t exc = plain_act SyncOn t exc a"
| "plain_sync (SSeq p q) h d parent t exc =
     plain_turn (plain_sync p h d parent t exc) (plain_sync q h d parent t exc)"
| "plain_sync (STry p q) h d parent t exc =
     plain_try (plain_sync p h d parent t exc) (\<lambda>e. plain_sync q h d parent t (Some e))"
| "plain_sync (AsyncToSync force a) h d parent t exc =
     plain_async a h (Suc d) (case parent of Some l \<Rightarrow> if force then d else l | None \<Rightarrow> d) (Some t) exc"
| "plain_async (ADo a) h d l owner exc = plain_act AsyncOn (loop_home h l) exc a"
| "plain_async (ASeq a b) h d l owner exc =
     plain_turn (plain_async a h d l owner exc) (plain_async b h d l owner exc)"
| "plain_async (ATry a b) h d l owner exc =
     plain_try (plain_async a h d l owner exc) (\<lambda>e. plain_async b h d l owner (Some e))"
| "plain_async (SyncToAsync sensitive p) h d l owner exc = plain_sync p h d (Some l)
     (if sensitive then (case owner of Some t \<Rightarrow> t | None \<Rightarrow> single_thread h) else pool_thread h d) exc"

end
