(* ===== verification/Nested_Refinement.thy ===== *)
theory Nested_Refinement
  imports Nested_Calls
begin

text \<open>
  Nested calls through \<open>AsyncToSync\<close> and \<open>SyncToAsync\<close> refine the sequential reading of the
  program, in results, exceptions, \<open>Local\<close> data, context variables and threads; and what
  follows for thread-sensitive code.
\<close>

section \<open>Frames that belong to one thread\<close>

text \<open>
  \<open>tidy m c\<close>: the context holds \<open>Local\<close> storage that refers to the memory, and plain values
  in variables of other names. \<open>owned_frame t f\<close>: all the storage is tagged with \<open>t\<close>.
\<close>

definition tidy_cell :: "val mem \<Rightarrow> cvar \<Rightarrow> val cval \<Rightarrow> bool" where
  "tidy_cell m x v \<longleftrightarrow> (if cvar_name x = local_cvar_name
     then \<exists>i a. v = CTuple [EIdent i, EDict a] \<and> a < next_addr m else \<exists>u. v = CUser u)"

definition tidy :: "val mem \<Rightarrow> val ctxt \<Rightarrow> bool" where
  "tidy m c \<longleftrightarrow> dict_ok c \<and> (\<forall>x v. dict_get c x = Some v \<longrightarrow> tidy_cell m x v)"

definition owned_frame :: "tid \<Rightarrow> val frame \<Rightarrow> bool" where
  "owned_frame t f \<longleftrightarrow> (\<forall>a. dict_ok (dicts (mem f) a)) \<and> tidy (mem f) (ctx f) \<and>
     (\<forall>x i a. dict_get (ctx f) x = Some (CTuple [EIdent i, EDict a]) \<longrightarrow> i = t)"

lemma tidy_mono: "tidy m c \<Longrightarrow> next_addr m \<le> next_addr m' \<Longrightarrow> tidy m' c"
  unfolding tidy_def tidy_cell_def by (meson less_le_trans)

lemma tidy_empty [simp]: "tidy m []"
  by (simp add: tidy_def)

lemma tidy_local:
  assumes "tidy m c" and "dict_get c x = Some v" and "cvar_name x = local_cvar_name"
  obtains i a where "v = CTuple [EIdent i, EDict a]" "a < next_addr m"
  using assms unfolding tidy_def tidy_cell_def by meson

lemma tidy_plain:
  assumes "tidy m c" and "dict_get c x = Some v" and "cvar_name x \<noteq> local_cvar_name"
  obtains u where "v = CUser u"
  using assms unfolding tidy_def tidy_cell_def by meson

lemma tidy_ok: "tidy m c \<Longrightarrow> dict_ok c"
  by (simp add: tidy_def)

lemma tidy_movable:
  assumes "tidy m c"
  shows "movable c"
  unfolding movable_def list_all_iff
proof (intro ballI, clarify)
  fix x v assume "(x, v) \<in> set c"
  then have at: "dict_get c x = Some v" using tidy_ok [OF assms] by (simp add: dict_ok_def)
  show "case v of CTuple st \<Rightarrow> cvar_name x = local_cvar_name \<longrightarrow> 2 \<le> length st | _ \<Rightarrow> True"
  proof (cases "cvar_name x = local_cvar_name")
    case True
    from tidy_local [OF assms at this] obtain i a where "v = CTuple [EIdent i, EDict a]" .
    then show ?thesis by simp
  qed (auto split: cval.split)
qed

lemma tidy_set_plain:
  "tidy m c \<Longrightarrow> cvar_name x \<noteq> local_cvar_name \<Longrightarrow> tidy m (dict_set x (CUser u) c)"
  by (simp add: tidy_def) (simp add: tidy_cell_def)

lemma tidy_set_local:
  "tidy m c \<Longrightarrow> cvar_name x = local_cvar_name \<Longrightarrow> a < next_addr m \<Longrightarrow>
   tidy m (dict_set x (CTuple [EIdent i, EDict a]) c)"
  by (simp add: tidy_def) (simp add: tidy_cell_def)

lemma owned_tag:
  "owned_frame t f \<Longrightarrow> dict_get (ctx f) x = Some (CTuple [EIdent i, EDict a]) \<Longrightarrow> i = t"
  unfolding owned_frame_def by blast

lemma look_of_owned:
  assumes "owned_frame t f" and "cvar_name x = local_cvar_name"
  shows "local_look t x f = (case dict_get (ctx f) x of
     Some (CTuple [EIdent i, EDict a]) \<Rightarrow> dict_get (dicts (mem f) a) | _ \<Rightarrow> Map.empty)"
proof (cases "dict_get (ctx f) x")
  case (Some v)
  with assms obtain i a where v: "v = CTuple [EIdent i, EDict a]"
    unfolding owned_frame_def by (meson tidy_local)
  with Some owned_tag [OF assms(1)] have "i = t" by simp
  with Some v show ?thesis by (simp add: local_look_data)
qed (simp add: local_look_data)

section \<open>Taking a frame over to another thread\<close>

lemma settled_storage:
  assumes "\<forall>b. dict_ok (dicts m b)" and "tidy m prev" and "cvar_name x = local_cvar_name" and "a < next_addr m"
  shows "\<exists>b. settled (=) m (dict_get prev x) (CTuple [EIdent t, EDict a]) = CTuple [EIdent t, EDict b] \<and>
    b < next_addr m \<and> dict_get (dicts m b) = dict_get (dicts m a)"
proof -
  let ?s = "settled (=) m (dict_get prev x) (CTuple [EIdent t, EDict a])"
  obtain b where b: "?s = CTuple [EIdent t, EDict b]" "look_eq (=) (dict_get (dicts m b)) (dict_get (dicts m a))"
    using settled_local [OF _ assms(1) refl] by (metis reflp_on_equality)
  have "b < next_addr m"
  proof (cases "dict_get prev x")
    case (Some v)
    with assms(2,3) obtain i c where "v = CTuple [EIdent i, EDict c]" "c < next_addr m" by (meson tidy_local)
    with Some b(1) assms(4) show ?thesis by (auto simp: settled_def split: if_splits)
  qed (use b(1) assms(4) in \<open>simp add: settled_def\<close>)
  moreover have "dict_get (dicts m b) = dict_get (dicts m a)"
  proof
    fix k
    from b(2) show "dict_get (dicts m b) k = dict_get (dicts m a) k"
      by (cases "dict_get (dicts m b) k"; cases "dict_get (dicts m a) k")
        (auto simp: look_eq_def dest: spec [of _ k])
  qed
  ultimately show ?thesis using b(1) by blast
qed

text \<open>
  Restoring the context of a thread's frame into a context that sets no further variable gives a
  frame of the other thread with the same data.
\<close>

lemma taken_over:
  assumes "owned_frame t f" and "tidy (mem f) prev" and "dom (dict_get prev) \<subseteq> dom (dict_get (ctx f))"
    and "g = \<lparr>mem = mem f, ctx = snd (restore_context (=) u (mem f) (ctx f) prev)\<rparr>"
  shows "owned_frame u g" "dom (dict_get (ctx g)) = dom (dict_get (ctx f))"
    "cvar_name x = local_cvar_name \<Longrightarrow> local_look u x g = local_look t x f"
    "cvar_name x \<noteq> local_cvar_name \<Longrightarrow> dict_get (ctx g) x = dict_get (ctx f) x"
proof -
  have src: "tidy (mem f) (ctx f)" and dicts: "\<forall>a. dict_ok (dicts (mem f) a)"
    using assms(1) by (simp_all add: owned_frame_def)
  note mov = tidy_movable [OF src] and ok = tidy_ok [OF src]
  have g: "mem g = mem f" "ctx g = snd (restore_context (=) u (mem f) (ctx f) prev)" using assms(4) by simp_all
  have get: "dict_get (ctx g) x = (case dict_get (ctx f) x of None \<Rightarrow> None
      | Some v \<Rightarrow> Some (settled (=) (mem f) (dict_get prev x) (moved u x v)))" for x
    using restore_context_get_eq [OF mov ok, of "(=)" u "mem f" prev x] assms(3) g(2)
    by (auto split: option.splits)
  have local: "(dict_get (ctx f) x = None \<and> dict_get (ctx g) x = None) \<or>
      (\<exists>i a b. dict_get (ctx f) x = Some (CTuple [EIdent i, EDict a]) \<and>
        dict_get (ctx g) x = Some (CTuple [EIdent u, EDict b]) \<and> b < next_addr (mem f) \<and>
        dict_get (dicts (mem f) b) = dict_get (dicts (mem f) a))"
    if x: "cvar_name x = local_cvar_name" for x
  proof (cases "dict_get (ctx f) x")
    case (Some v)
    with src x obtain i a where v: "v = CTuple [EIdent i, EDict a]" "a < next_addr (mem f)" by (meson tidy_local)
    from settled_storage [OF dicts assms(2) x v(2)] get [of x] Some v(1) x show ?thesis by auto
  qed (simp add: get)
  have plain: "dict_get (ctx g) x = dict_get (ctx f) x" if x: "cvar_name x \<noteq> local_cvar_name" for x
  proof (cases "dict_get (ctx f) x")
    case (Some v)
    with src x obtain w where v: "v = CUser w" by (meson tidy_plain)
    have "settled (=) (mem f) (dict_get prev x) (CUser w) = CUser w"
    proof (cases "dict_get prev x")
      case (Some y)
      with assms(2) x obtain z where "y = CUser z" by (meson tidy_plain)
      with Some show ?thesis by (simp add: settled_def)
    qed (simp add: settled_def)
    with Some v x get [of x] show ?thesis by simp
  qed (simp add: get)
  show "dom (dict_get (ctx g)) = dom (dict_get (ctx f))" by (auto simp: get dom_def split: option.splits)
  show "dict_get (ctx g) x = dict_get (ctx f) x" if "cvar_name x \<noteq> local_cvar_name" by (rule plain [OF that])
  have "dict_ok prev" by (rule tidy_ok [OF assms(2)])
  then have okg: "dict_ok (ctx g)"
    using restore_context_get [OF mov ok, of "(=)" u "mem f" prev] g(2) by auto
  have tidyg: "tidy (mem g) (ctx g)" unfolding tidy_def
  proof (intro conjI allI impI, rule okg)
    fix x v assume v: "dict_get (ctx g) x = Some v"
    show "tidy_cell (mem g) x v"
    proof (cases "cvar_name x = local_cvar_name")
      case True
      from local [OF True] v True g(1) show ?thesis by (auto simp: tidy_cell_def)
    next
      case False
      with v plain [OF False] src obtain w where "v = CUser w" by (metis tidy_plain)
      with False show ?thesis by (simp add: tidy_cell_def)
    qed
  qed
  have "i = u" if v: "dict_get (ctx g) x = Some (CTuple [EIdent i, EDict a])" for x i a
  proof (cases "cvar_name x = local_cvar_name")
    case True
    from local [OF True] v show ?thesis by auto
  next
    case False
    show ?thesis by (rule tidy_plain [OF tidyg v False]) simp
  qed
  then show own: "owned_frame u g" using dicts tidyg g(1) by (simp add: owned_frame_def)
  show "local_look u x g = local_look t x f" if x: "cvar_name x = local_cvar_name"
    using local [OF x] look_of_owned [OF own x] look_of_owned [OF assms(1) x] g(1) by auto
qed

lemma takes_over:
  assumes "owned_frame t f"
  shows "fst (restore_context (=) u (mem f) (ctx f) prev) = Inr ()"
proof -
  have "tidy (mem f) (ctx f)" using assms by (simp add: owned_frame_def)
  from restore_context_returns [OF tidy_movable [OF this] tidy_ok [OF this]] show ?thesis .
qed

section \<open>Frames that hold the names of a program\<close>

text \<open>
  \<open>fits t f N c\<close>: thread \<open>t\<close> reads in frame \<open>f\<close> the names \<open>N\<close>, \<open>executors.current\<close> is \<open>c\<close>,
  and at most a \<open>ThreadSensitiveContext\<close> is active. \<open>grows\<close>: what a run does to memory and context.
\<close>

definition fits :: "tid \<Rightarrow> val frame \<Rightarrow> names \<Rightarrow> val \<Rightarrow> bool" where
  "fits t f N c \<longleftrightarrow> owned_frame t f \<and> (\<forall>n. local_look t (user_local n) f = attrs N n) \<and>
     (\<forall>n. dict_get (ctx f) (user_context_var n) = map_option (\<lambda>v. CUser (VUser v)) (vars N n)) \<and>
     current_of t f = c \<and>
     dict_get (ctx f) thread_sensitive_var = map_option (\<lambda>x. CUser (VManager x)) (within N) \<and>
     dict_get (ctx f) single_thread_var = None"

definition grows :: "val frame \<Rightarrow> val frame \<Rightarrow> bool" where
  "grows f g \<longleftrightarrow> next_addr (mem f) \<le> next_addr (mem g) \<and> dom (dict_get (ctx f)) \<subseteq> dom (dict_get (ctx g))"

definition flag_down :: "val frame \<Rightarrow> bool" where
  "flag_down f \<longleftrightarrow> dict_get (ctx f) deadlock_var \<noteq> Some (CUser (VBool True))"

lemma grows_refl [simp]: "grows f f"
  by (simp add: grows_def)

lemma grows_trans: "grows f g \<Longrightarrow> grows g h \<Longrightarrow> grows f h"
  by (auto simp: grows_def)

lemma user_names [simp]:
  "cvar_name (user_local n) = local_cvar_name" "cvar_name (user_context_var n) \<noteq> local_cvar_name"
  "user_local n \<noteq> executors_var" "cvar_name thread_sensitive_var \<noteq> local_cvar_name"
  "user_local n = user_local k \<longleftrightarrow> n = k" "user_context_var n = user_context_var k \<longleftrightarrow> n = k"
  "user_context_var n \<noteq> thread_sensitive_var" "user_context_var n \<noteq> single_thread_var"
  "user_context_var n \<noteq> deadlock_var" "user_local n \<noteq> user_context_var k" "executors_var \<noteq> user_context_var k"
  "deadlock_var \<noteq> thread_sensitive_var" "deadlock_var \<noteq> single_thread_var" "executors_var \<noteq> deadlock_var"
  "user_local n \<noteq> deadlock_var"
  by (simp_all add: user_local_def user_context_var_def executors_var_def thread_sensitive_var_def
      single_thread_var_def deadlock_var_def local_cvar_name_def)

lemma user_names_sym [simp]:
  "executors_var \<noteq> user_local n" "thread_sensitive_var \<noteq> user_local n" "single_thread_var \<noteq> user_local n"
  "deadlock_var \<noteq> user_local n" "user_context_var k \<noteq> user_local n"
  "thread_sensitive_var \<noteq> user_context_var n" "single_thread_var \<noteq> user_context_var n"
  "deadlock_var \<noteq> user_context_var n" "thread_sensitive_var \<noteq> deadlock_var" "single_thread_var \<noteq> deadlock_var"
  by (simp_all add: user_local_def user_context_var_def executors_var_def thread_sensitive_var_def
      single_thread_var_def deadlock_var_def local_cvar_name_def)

lemma fits_owned: "fits t f N c \<Longrightarrow> owned_frame t f"
  by (simp add: fits_def)

lemma fits_tidy: "fits t f N c \<Longrightarrow> tidy (mem f) (ctx f)"
  by (simp add: fits_def owned_frame_def)

lemma fits_movable: "fits t f N c \<Longrightarrow> movable (ctx f) \<and> dict_ok (ctx f)"
  using fits_tidy tidy_movable tidy_ok by blast

lemma fits_taken_over:
  assumes "fits t f N c" and "tidy (mem f) prev" and "dom (dict_get prev) \<subseteq> dom (dict_get (ctx f))"
  shows "fits u \<lparr>mem = mem f, ctx = snd (restore_context (=) u (mem f) (ctx f) prev)\<rparr> N c \<and>
    grows f \<lparr>mem = mem f, ctx = snd (restore_context (=) u (mem f) (ctx f) prev)\<rparr> \<and>
    dict_get (snd (restore_context (=) u (mem f) (ctx f) prev)) deadlock_var = dict_get (ctx f) deadlock_var"
proof -
  let ?g = "\<lparr>mem = mem f, ctx = snd (restore_context (=) u (mem f) (ctx f) prev)\<rparr>"
  note over = taken_over [OF fits_owned [OF assms(1)] assms(2,3) refl, where u = u]
  have "current_of u ?g = current_of t f" by (simp add: current_of_def over(3))
  with over assms(1) have "fits u ?g N c" by (simp add: fits_def)
  moreover have "grows f ?g" using over(2) by (simp add: grows_def)
  ultimately show ?thesis using over(4) [of deadlock_var] by simp
qed

text \<open>Publishing storage and setting a plain variable.\<close>

lemma owned_publish:
  assumes "owned_frame t f" and "cvar_name x = local_cvar_name" and "dict_ok d"
  shows "owned_frame t (publish t x d f) \<and> grows f (publish t x d f) \<and>
    local_look t x (publish t x d f) = dict_get d \<and>
    (\<forall>y. y \<noteq> x \<longrightarrow> dict_get (ctx (publish t x d f)) y = dict_get (ctx f) y) \<and>
    (\<forall>y. y \<noteq> x \<longrightarrow> cvar_name y = local_cvar_name \<longrightarrow> local_look t y (publish t x d f) = local_look t y f)"
proof -
  let ?a = "next_addr (mem f)" and ?g = "publish t x d f"
  have g: "mem ?g = (mem f)\<lparr>dicts := (dicts (mem f))(?a := d), next_addr := Suc ?a\<rparr>"
    "ctx ?g = dict_set x (CTuple [EIdent t, EDict ?a]) (ctx f)" by (simp_all add: publish_def new_dict_def)
  have "tidy (mem f) (ctx f)" using assms(1) by (simp add: owned_frame_def)
  from tidy_mono [OF this, of "mem ?g"] have later: "tidy (mem ?g) (ctx f)" by (simp add: g)
  then have "tidy (mem ?g) (ctx ?g)"
    unfolding g(2) by (rule tidy_set_local [OF _ assms(2)]) (simp add: g)
  then have own: "owned_frame t ?g" unfolding owned_frame_def
    using assms(1,3) owned_tag [OF assms(1)] by (auto simp: owned_frame_def g split: if_splits)
  have "local_look t y ?g = local_look t y f" if y: "y \<noteq> x" "cvar_name y = local_cvar_name" for y
  proof (cases "dict_get (ctx f) y")
    case (Some v)
    then obtain i a where "v = CTuple [EIdent i, EDict a]" "a < ?a"
      using \<open>tidy (mem f) (ctx f)\<close> y(2) by (meson tidy_local)
    with Some y show ?thesis
      by (simp add: look_of_owned [OF own y(2)] look_of_owned [OF assms(1) y(2)] g)
  qed (use y in \<open>simp add: look_of_owned [OF own y(2)] look_of_owned [OF assms(1) y(2)] g\<close>)
  moreover have "grows f ?g" by (auto simp: grows_def g)
  ultimately show ?thesis using own local_look_publish g(2) by simp
qed

lemma publish_fits:
  assumes "fits t f N c" and "dict_ok d"
  shows "fits t (publish t (user_local n) d f) (N\<lparr>attrs := (attrs N)(n := dict_get d)\<rparr>) c \<and>
    grows f (publish t (user_local n) d f) \<and>
    dict_get (ctx (publish t (user_local n) d f)) deadlock_var = dict_get (ctx f) deadlock_var"
proof -
  note pub = owned_publish [OF fits_owned [OF assms(1)] user_names(1) assms(2), of n]
  then have "current_of t (publish t (user_local n) d f) = current_of t f"
    by (simp add: current_of_def)
  with pub assms(1) show ?thesis by (simp add: fits_def)
qed

lemma set_plain_fits:
  assumes "fits t f N c" and "cvar_name x \<noteq> local_cvar_name"
  shows "owned_frame t (f\<lparr>ctx := dict_set x (CUser u) (ctx f)\<rparr>) \<and> grows f (f\<lparr>ctx := dict_set x (CUser u) (ctx f)\<rparr>) \<and>
    (\<forall>y. cvar_name y = local_cvar_name \<longrightarrow>
       local_look t y (f\<lparr>ctx := dict_set x (CUser u) (ctx f)\<rparr>) = local_look t y f)"
proof -
  have "owned_frame t (f\<lparr>ctx := dict_set x (CUser u) (ctx f)\<rparr>)"
    unfolding owned_frame_def using assms owned_tag [OF fits_owned [OF assms(1)]]
      tidy_set_plain [OF fits_tidy [OF assms(1)] assms(2)]
    by (auto simp: fits_def owned_frame_def split: if_splits)
  with assms(2) show ?thesis by (auto simp: grows_def local_look_data split: option.split)
qed

lemma publish_data_fits:
  assumes "fits t f N c"
  shows "dict_get (case owned_data t (dict_get (ctx f) (user_local n)) of
      Some a \<Rightarrow> dicts (mem f) a | None \<Rightarrow> []) = attrs N n"
    "dict_ok (case owned_data t (dict_get (ctx f) x) of Some a \<Rightarrow> dicts (mem f) a | None \<Rightarrow> [])"
proof -
  have "local_look t (user_local n) f = attrs N n" using assms by (simp add: fits_def)
  then show "dict_get (case owned_data t (dict_get (ctx f) (user_local n)) of
      Some a \<Rightarrow> dicts (mem f) a | None \<Rightarrow> []) = attrs N n"
    by (simp add: local_look_data split: option.splits)
  show "dict_ok (case owned_data t (dict_get (ctx f) x) of Some a \<Rightarrow> dicts (mem f) a | None \<Rightarrow> [])"
    using assms by (simp add: fits_def owned_frame_def split: option.split)
qed

lemma act_fits:
  assumes "fits t f N c" and "act on t exc a f = (r, g)"
  shows "\<exists>N'. plain_act on t exc a N = (r, N') \<and> fits t g N' c \<and> grows f g \<and>
    dict_get (ctx g) deadlock_var = dict_get (ctx f) deadlock_var"
proof (cases a)
  case (GetAttr n k)
  have "local_look t (user_local n) f = attrs N n" using assms(1) by (simp add: fits_def)
  with GetAttr assms show ?thesis by (auto simp: local_look_iff split: option.splits)
next
  case (SetAttr n k v)
  let ?d = "case owned_data t (dict_get (ctx f) (user_local n)) of Some a \<Rightarrow> dicts (mem f) a | None \<Rightarrow> []"
  note d = publish_data_fits [OF assms(1)]
  show ?thesis
  proof (cases "k \<in> set own_slots")
    case False
    with SetAttr assms(2) have "r = Inr []" "g = publish t (user_local n) (dict_set k (VUser v) ?d) f"
      by (simp_all add: local_setattr_def)
    moreover have "dict_get (dict_set k (VUser v) ?d) = (attrs N n)(k \<mapsto> VUser v)" using d(1) by simp
    ultimately show ?thesis
      using publish_fits [OF assms(1) dict_ok_set [OF d(2)], of n k "VUser v" "user_local n"] SetAttr False by simp
  qed (use SetAttr assms in \<open>simp add: local_setattr_def\<close>)
next
  case (DelAttr n k)
  have look: "local_look t (user_local n) f = attrs N n" using assms(1) by (simp add: fits_def)
  show ?thesis
  proof (cases "attrs N n k")
    case None
    with look have "local_delattr t (user_local n) k f = Inl AttributeError"
      by (auto simp: local_look_data local_delattr_def dict_keys_iff split: option.splits)
    with None DelAttr assms show ?thesis by simp
  next
    case (Some v)
    with look obtain b where b: "owned_data t (dict_get (ctx f) (user_local n)) = Some b"
      "dict_get (dicts (mem f) b) = attrs N n"
      by (cases "owned_data t (dict_get (ctx f) (user_local n))") (auto simp: local_look_data fun_eq_iff)
    with Some have "local_delattr t (user_local n) k f =
        Inr (publish t (user_local n) (dict_del k (dicts (mem f) b)) f)"
      by (simp add: local_delattr_def dict_keys_iff)
    moreover have "dict_ok (dict_del k (dicts (mem f) b))"
      using assms(1) by (simp add: fits_def owned_frame_def)
    ultimately show ?thesis using publish_fits [OF assms(1)] b(2) Some DelAttr assms(2) by fastforce
  qed
next
  case (GetVar n)
  have "dict_get (ctx f) (user_context_var n) = map_option (\<lambda>v. CUser (VUser v)) (vars N n)"
    using assms(1) by (simp add: fits_def)
  with GetVar assms show ?thesis by (cases "vars N n") auto
next
  case (SetVar n v)
  note new = set_plain_fits [OF assms(1), of "user_context_var n" "VUser v"]
  have "fits t (f\<lparr>ctx := dict_set (user_context_var n) (CUser (VUser v)) (ctx f)\<rparr>)
      (N\<lparr>vars := (vars N)(n \<mapsto> v)\<rparr>) c"
    using new assms(1) by (simp add: fits_def current_of_def)
  with SetVar assms new show ?thesis by auto
qed (use assms in auto)

section \<open>Crossings\<close>

lemma set_current_fits:
  assumes "fits t f N c"
  shows "fits t (set_current t v f) N v \<and> grows f (set_current t v f)"
proof -
  let ?d = "dict_set ''current'' v (case owned_data t (dict_get (ctx f) executors_var) of
      Some a \<Rightarrow> dicts (mem f) a | None \<Rightarrow> [])"
  have pub: "set_current t v f = publish t executors_var ?d f"
    by (simp add: local_put_def local_setattr_def Let_def)
  have "dict_ok ?d" by (rule dict_ok_set [OF publish_data_fits(2) [OF assms]])
  note new = owned_publish [OF fits_owned [OF assms] executors_var_name this]
  have "current_of t (set_current t v f) = v" by simp
  then have "current_of t (publish t executors_var ?d f) = v" unfolding pub .
  moreover have "thread_sensitive_var \<noteq> executors_var" "single_thread_var \<noteq> executors_var"
    "user_context_var n \<noteq> executors_var" for n
    by (simp_all add: executors_var_def thread_sensitive_var_def single_thread_var_def user_context_var_def
        local_cvar_name_def)
  ultimately show ?thesis unfolding pub using new assms by (simp add: fits_def)
qed

lemma set_deadlock_fits:
  assumes "fits t (frame k) N c"
  shows "fits t (frame (set_deadlock b k)) N c \<and> grows (frame k) (frame (set_deadlock b k))"
  using set_plain_fits [OF assms deadlock_var_other, of "VBool b"] assms
  by (simp add: set_deadlock_def fits_def current_of_def)

text \<open>From synchronous code into a loop and back.\<close>

lemma crossing_loop:
  "loop_tid (crossing_env h d force exc s body) s = loop_home h (loop_of_call d force s)"
  by (simp add: loop_tid_def in_parent_loop_def crossing_env_def loop_of_call_def split: option.split)

lemma pushed_fits:
  "fits (me s) (pframe s) N c \<Longrightarrow>
   fits (me s) (pframe (pushed s)) N (VExecutor (next_exec s)) \<and> grows (pframe s) (pframe (pushed s))"
  using set_current_fits by simp

lemma begins_fits:
  assumes "fits (me s) (pframe s) N c" and "env = crossing_env h d force exc s body"
  shows "fits (loop_home h (loop_of_call d force s)) (begins (=) env s) N (VExecutor (next_exec s)) \<and>
    grows (pframe (pushed s)) (begins (=) env s)"
proof -
  let ?f = "pframe (pushed s)"
  have f: "fits (me s) ?f N (VExecutor (next_exec s))" using pushed_fits [OF assms(1)] by blast
  let ?c = "if in_parent_loop env s then ctx ?f else worker_ctx env"
  have "worker_ctx env = []" by (simp add: assms(2) crossing_env_def)
  then have "tidy (mem ?f) ?c" "dom (dict_get ?c) \<subseteq> dom (dict_get (ctx ?f))"
    using fits_tidy [OF f] by auto
  from fits_taken_over [OF f this, of "loop_tid env s"] show ?thesis
    unfolding begins_def start_frame_def assms(2) crossing_loop by blast
qed

lemma async_crossing:
  assumes "\<not> running_here s" and "busy s = []" and "fits (me s) (pframe s) N c"
    and "env = crossing_env h d force exc s body" and "awaited (=) env s = (r, f)"
    and "fits (loop_home h (loop_of_call d force s)) f N' (VExecutor (next_exec s))"
    and "grows (begins (=) env s) f"
  shows "\<exists>t. async_to_sync_call (=) env s = Some (r, t) \<and> same_caller s t \<and>
    fits (me s) (pframe t) N' c \<and> grows (pframe s) (pframe t)"
proof -
  let ?p = "ctx (pframe (pushed s))"
  note src = fits_movable [OF assms(3)] and res = fits_movable [OF assms(6)]
  have "worker_free env s" using assms(2) by (simp add: worker_free_def)
  moreover have "created env = Inr ()" by (simp add: assms(4) crossing_env_def)
  ultimately obtain t where t: "async_to_sync_call (=) env s = Some (r, t)" "same_caller s t"
    "pframe t = set_current (me s) (current_of (me s) (pframe s)) \<lparr>mem = mem f,
       ctx = snd (restore_context (=) (me s) (mem f) (ctx f) ?p)\<rparr>"
    using async_to_sync_ends [OF assms(1) _ _ _ _ assms(5)] src res by blast
  note push = pushed_fits [OF assms(3)]
  have up: "grows (pframe (pushed s)) f"
    using begins_fits [OF assms(3,4)] assms(7) grows_trans by blast
  have "tidy (mem (pframe (pushed s))) ?p" using push fits_tidy by blast
  with up have "tidy (mem f) ?p" by (auto simp: grows_def intro: tidy_mono)
  moreover have "dom (dict_get ?p) \<subseteq> dom (dict_get (ctx f))" using up by (simp add: grows_def)
  ultimately have ret: "fits (me s) \<lparr>mem = mem f, ctx = snd (restore_context (=) (me s) (mem f) (ctx f) ?p)\<rparr> N' (VExecutor (next_exec s))"
    "grows f \<lparr>mem = mem f, ctx = snd (restore_context (=) (me s) (mem f) (ctx f) ?p)\<rparr>"
    using fits_taken_over [OF assms(6), of ?p "me s"] by blast+
  have "current_of (me s) (pframe s) = c" using assms(3) by (simp add: fits_def)
  with set_current_fits [OF ret(1)] t(3) have "fits (me s) (pframe t) N' c"
    "grows \<lparr>mem = mem f, ctx = snd (restore_context (=) (me s) (mem f) (ctx f) ?p)\<rparr> (pframe t)" by simp_all
  moreover have "grows (pframe s) (pframe t)"
    using push up ret(2) calculation(2) grows_trans by blast
  ultimately show ?thesis using t(1,2) by blast
qed

text \<open>From a loop to the thread of a function and back.\<close>

lemma worker_fits:
  assumes "fits t f N c"
  shows "fits w (worker_frame (=) w f) N c \<and> grows f (worker_frame (=) w f)"
proof -
  have "tidy (mem f) (ctx f)" by (rule fits_tidy [OF assms])
  from fits_taken_over [OF assms this, of w] show ?thesis
    by (cases f) (simp add: worker_frame_def)
qed

lemma sync_crossing:
  assumes "fits (loop_thread k) (frame k) N c"
    and "select_executor (plain_wrapper sensitive) k = (Inr x, k1)"
    and "k1 = k \<or> k1 = set_deadlock True k \<or> k1 = k\<lparr>pools := m\<rparr>"
    and "env = job_env h own d exc (loop_thread k) body" and "refuses env x = None"
    and "body exc (worker_local env k) (worker_frame (=) (worker_of env x) (frame k1)) = (r, f)"
    and "fits (worker_of env x) f N' c" and "grows (worker_frame (=) (worker_of env x) (frame k1)) f"
  shows "\<exists>k'. sync_to_async_call (=) (plain_wrapper sensitive) env k = (r, k') \<and>
    loop_thread k' = loop_thread k \<and> this_loop k' = this_loop k \<and> loop_executors k' = loop_executors k \<and>
    pools k' = pools k1 \<and> fits (loop_thread k) (frame k') N' c \<and> grows (frame k) (frame k') \<and> flag_down (frame k')"
proof -
  let ?k = "k1\<lparr>frame := \<lparr>mem = mem f, ctx = snd (restore_context (=) (loop_thread k) (mem f) (ctx f) (ctx (frame k1)))\<rparr>\<rparr>"
  have k1: "fits (loop_thread k) (frame k1) N c" "grows (frame k) (frame k1)" "loop_thread k1 = loop_thread k"
    "this_loop k1 = this_loop k" "loop_executors k1 = loop_executors k"
    using assms(1,3) set_deadlock_fits [OF assms(1)] by (auto simp: set_deadlock_def)
  note src = fits_movable [OF assms(1)] and res = fits_movable [OF assms(7)]
  have call: "sync_to_async_call (=) (plain_wrapper sensitive) env k = (r, set_deadlock False ?k)"
    using src res assms(4,6)
    by (intro call_runs [OF _ assms(2,5)]) (simp_all add: plain_wrapper_def job_env_def)
  have up: "grows (frame k1) f" using worker_fits [OF k1(1)] assms(8) grows_trans by blast
  have "tidy (mem (frame k1)) (ctx (frame k1))" using k1(1) fits_tidy by blast
  with up have "tidy (mem f) (ctx (frame k1))" by (auto simp: grows_def intro: tidy_mono)
  moreover have "dom (dict_get (ctx (frame k1))) \<subseteq> dom (dict_get (ctx f))" using up by (simp add: grows_def)
  ultimately have "fits (loop_thread k) (frame ?k) N' c" "grows f (frame ?k)"
    using fits_taken_over [OF assms(7), of "ctx (frame k1)" "loop_thread k"] by auto
  with set_deadlock_fits [of "loop_thread k" ?k N' c False]
  have "fits (loop_thread k) (frame (set_deadlock False ?k)) N' c" "grows f (frame (set_deadlock False ?k))"
    using grows_trans by blast+
  moreover have "grows (frame k) (frame (set_deadlock False ?k))"
    using k1(2) up calculation(2) grows_trans by blast
  moreover have "flag_down (frame (set_deadlock False ?k))" by (simp add: flag_down_def set_deadlock_def)
  ultimately show ?thesis using call k1(3-5) by (simp add: set_deadlock_def)
qed

section \<open>The simulation\<close>

text \<open>
  A run agrees with a plain run if it ends, in the same way, in states related by \<open>Q\<close>. Sequencing
  and handlers keep the agreement of their parts.
\<close>

definition agrees :: "('s \<Rightarrow> 'n \<Rightarrow> bool) \<Rightarrow> ('s \<Rightarrow> outcome \<times> 's) \<Rightarrow> ('n \<Rightarrow> (exn + event list) \<times> 'n) \<Rightarrow>
    's \<Rightarrow> 'n \<Rightarrow> bool" where
  "agrees Q a b s N \<longleftrightarrow> (\<exists>t. a s = (map_sum id Some (fst (b N)), t) \<and> Q t (snd (b N)))"

lemma agrees_turn:
  assumes "agrees Q a b s N" and "\<And>t M. Q t M \<Longrightarrow> agrees Q a' b' t M"
  shows "agrees Q (in_turn a a') (plain_turn b b') s N"
proof -
  obtain t where t: "a s = (map_sum id Some (fst (b N)), t)" "Q t (snd (b N))"
    using assms(1) by (auto simp: agrees_def)
  from assms(2) [OF t(2)] obtain u where u: "a' t = (map_sum id Some (fst (b' (snd (b N)))), u)"
    "Q u (snd (b' (snd (b N))))" by (auto simp: agrees_def)
  obtain r M where b: "b N = (r, M)" by fastforce
  obtain q M' where b': "b' M = (q, M')" by fastforce
  from t u b b' show ?thesis
    by (cases r; cases q) (simp_all add: agrees_def in_turn_def plain_turn_def)
qed

lemma agrees_try:
  assumes "agrees Q a b s N" and "\<And>e t M. Q t M \<Longrightarrow> agrees Q (a' e) (b' e) t M"
  shows "agrees Q (or_else a a') (plain_try b b') s N"
proof -
  obtain t where t: "a s = (map_sum id Some (fst (b N)), t)" "Q t (snd (b N))"
    using assms(1) by (auto simp: agrees_def)
  obtain r M where b: "b N = (r, M)" by fastforce
  from t b assms(2) [of t M] show ?thesis
    by (cases r) (auto simp: agrees_def or_else_def plain_try_def)
qed

text \<open>
  The threads of loops run nothing but their loop. \<open>sync_ready\<close>: a thread about to run
  synchronous code whose parent loop is \<open>parent\<close>. \<open>async_ready\<close>: a task about to run
  asynchronous code below a call of thread \<open>owner\<close>, or below none; then \<open>sensitive_home\<close> is the thread
  of thread-sensitive code. \<open>same_pools\<close>: no executor has been made, or the one of the active manager.
\<close>

definition host_ok :: "host \<Rightarrow> bool" where
  "host_ok h \<longleftrightarrow> single_thread h \<notin> range (loop_home h) \<and> (\<forall>d. pool_thread h d \<notin> range (loop_home h)) \<and>
     (\<forall>p. context_thread h p \<notin> range (loop_home h)) \<and>
     os_id h \<noteq> 0"

definition sync_ready :: "host \<Rightarrow> loop option \<Rightarrow> process \<Rightarrow> names \<Rightarrow> val \<Rightarrow> bool" where
  "sync_ready h parent s N c \<longleftrightarrow> \<not> running_here s \<and> busy s = [] \<and> me s \<notin> range (loop_home h) \<and>
     resolve_loop False (pid s) (tl s) = parent \<and> fits (me s) (pframe s) N c"

definition sensitive_home :: "host \<Rightarrow> task \<Rightarrow> tid" where
  "sensitive_home h k = (case sensitive_manager k of
     None \<Rightarrow> single_thread h | Some x \<Rightarrow> context_thread h (fst (context_executor x (pools k))))"

definition async_ready :: "host \<Rightarrow> (nat \<Rightarrow> tid) \<Rightarrow> tid option \<Rightarrow> task \<Rightarrow> names \<Rightarrow> val \<Rightarrow> bool" where
  "async_ready h own owner k N c \<longleftrightarrow> fits (loop_thread k) (frame k) N c \<and>
     loop_thread k = loop_home h (this_loop k) \<and>
     (case owner of
        Some t \<Rightarrow> t \<notin> range (loop_home h) \<and> (\<exists>e. c = VExecutor e \<and> own e = t)
      | None \<Rightarrow> c = VNone \<and> loop_executors k (this_loop k) = None \<and> flag_down (frame k))"

definition sync_after :: "host \<Rightarrow> loop option \<Rightarrow> val \<Rightarrow> process \<Rightarrow> process \<Rightarrow> names \<Rightarrow> bool" where
  "sync_after h parent c s0 s N \<longleftrightarrow> sync_ready h parent s N c \<and> me s = me s0 \<and> grows (pframe s0) (pframe s)"

definition same_pools :: "task \<Rightarrow> task \<Rightarrow> bool" where
  "same_pools k0 k \<longleftrightarrow> sensitive_manager k = sensitive_manager k0 \<and>
     (pools k = pools k0 \<or> (\<exists>x. sensitive_manager k0 = Some x \<and> pools k = snd (context_executor x (pools k0))))"

definition async_after :: "host \<Rightarrow> (nat \<Rightarrow> tid) \<Rightarrow> tid option \<Rightarrow> val \<Rightarrow> task \<Rightarrow> task \<Rightarrow> names \<Rightarrow> bool" where
  "async_after h own owner c k0 k N \<longleftrightarrow> async_ready h own owner k N c \<and> loop_thread k = loop_thread k0 \<and>
     this_loop k = this_loop k0 \<and> grows (frame k0) (frame k) \<and> same_pools k0 k"

lemma context_executor_again [simp]:
  "context_executor x (snd (context_executor x m)) = (fst (context_executor x m), snd (context_executor x m))"
  by (simp add: context_executor_def split: option.split)

lemma same_pools_refl [simp]: "same_pools k k"
  by (simp add: same_pools_def)

lemma same_pools_trans: "same_pools k0 k1 \<Longrightarrow> same_pools k1 k \<Longrightarrow> same_pools k0 k"
  by (auto simp: same_pools_def)

lemma same_pools_home: "same_pools k0 k \<Longrightarrow> sensitive_home h k = sensitive_home h k0"
  by (auto simp: same_pools_def sensitive_home_def split: option.split)

lemma fits_manager: "fits t (frame k) N c \<Longrightarrow> sensitive_manager k = within N"
  by (cases "within N") (simp_all add: fits_def sensitive_manager_def)

text \<open>A plain run does not enter or leave a context manager.\<close>

lemma plain_act_within: "within (snd (plain_act on t exc a N)) = within N"
  by (cases a) (simp_all split: option.split)

lemma plain_turn_within:
  "(\<And>N. within (snd (a N)) = within N) \<Longrightarrow> (\<And>N. within (snd (b N)) = within N) \<Longrightarrow>
   within (snd (plain_turn a b N)) = within N"
  by (auto simp: plain_turn_def split: prod.split sum.split) (metis snd_conv)+

lemma plain_try_within:
  "(\<And>N. within (snd (a N)) = within N) \<Longrightarrow> (\<And>e N. within (snd (b e N)) = within N) \<Longrightarrow>
   within (snd (plain_try a b N)) = within N"
  by (auto simp: plain_try_def split: prod.split sum.split) (metis snd_conv)+

lemma plain_within:
  "within (snd (plain_sync p h d parent t exc N)) = within N"
  "within (snd (plain_async a h d l owner exc N)) = within N"
  by (induction p and a arbitrary: d parent t exc N and d l owner exc N)
    (simp_all add: plain_act_within plain_turn_within plain_try_within)

lemma sync_action_agrees:
  assumes "sync_after h parent c s0 s N"
  shows "agrees (sync_after h parent c s0) (sync_action exc a) (plain_act SyncOn (me s0) exc a) s N"
proof -
  have ready: "sync_ready h parent s N c" "me s = me s0" "grows (pframe s0) (pframe s)"
    using assms by (simp_all add: sync_after_def)
  obtain r f where rf: "act SyncOn (me s) exc a (pframe s) = (r, f)" by fastforce
  have "fits (me s) (pframe s) N c" using ready(1) by (simp add: sync_ready_def)
  from act_fits [OF this rf] obtain M where M: "plain_act SyncOn (me s) exc a N = (r, M)"
    "fits (me s) f M c" "grows (pframe s) f" by blast
  have "sync_after h parent c s0 (s\<lparr>pframe := f\<rparr>) M"
    using ready M(2,3) grows_trans [OF ready(3) M(3)] by (simp add: sync_after_def sync_ready_def)
  moreover have "sync_action exc a s = (map_sum id Some r, s\<lparr>pframe := f\<rparr>)" by (simp add: sync_action_def rf)
  moreover have "plain_act SyncOn (me s0) exc a N = (r, M)" using M(1) ready(2) by simp
  ultimately show ?thesis by (simp add: agrees_def)
qed

lemma async_action_agrees:
  assumes "async_after h own owner c k0 k N"
  shows "agrees (async_after h own owner c k0) (async_action exc a)
    (plain_act AsyncOn (loop_home h (this_loop k0)) exc a) k N"
proof -
  have ready: "async_ready h own owner k N c" "loop_thread k = loop_thread k0" "this_loop k = this_loop k0"
    "grows (frame k0) (frame k)" "same_pools k0 k" using assms by (simp_all add: async_after_def)
  obtain r f where rf: "act AsyncOn (loop_thread k) exc a (frame k) = (r, f)" by fastforce
  have "fits (loop_thread k) (frame k) N c" and home: "loop_thread k = loop_home h (this_loop k)"
    using ready(1) unfolding async_ready_def by blast+
  from act_fits [OF this(1) rf] obtain M where M: "plain_act AsyncOn (loop_thread k) exc a N = (r, M)"
    "fits (loop_thread k) f M c" "grows (frame k) f"
    "dict_get (ctx f) deadlock_var = dict_get (ctx (frame k)) deadlock_var" by blast
  have same: "within M = within N" using plain_act_within [of AsyncOn "loop_thread k" exc a N] M(1) by simp
  have "sensitive_manager (k\<lparr>frame := f\<rparr>) = sensitive_manager k"
    using fits_manager [OF \<open>fits (loop_thread k) (frame k) N c\<close>] fits_manager [of _ "k\<lparr>frame := f\<rparr>" M c] M(2) same
    by simp
  with ready(5) have "same_pools k0 (k\<lparr>frame := f\<rparr>)" by (simp add: same_pools_def)
  then have "async_after h own owner c k0 (k\<lparr>frame := f\<rparr>) M"
    using ready M(2-4) same grows_trans [OF ready(4) M(3)]
    by (simp add: async_after_def async_ready_def flag_down_def split: option.splits)
  moreover have "async_action exc a k = (map_sum id Some r, k\<lparr>frame := f\<rparr>)" by (simp add: async_action_def rf)
  moreover have "plain_act AsyncOn (loop_home h (this_loop k0)) exc a N = (r, M)"
    using M(1) home ready(3) by simp
  ultimately show ?thesis by (simp add: agrees_def)
qed

text \<open>The two crossings, given the agreement of what they run.\<close>

lemma async_to_sync_agrees:
  assumes after: "sync_after h parent c s0 s N"
    and body: "\<And>own' n k0 k M e. async_after h own' (Some (me s0)) e k0 k M \<Longrightarrow>
      agrees (async_after h own' (Some (me s0)) e k0) (run_async a h own' (Suc d) n exc)
        (plain_async a g (Suc d) (this_loop k0) (Some (me s0)) exc) k M"
  shows "agrees (sync_after h parent c s0) (run_sync (AsyncToSync force a) h own d exc)
    (plain_sync (AsyncToSync force a) g d parent (me s0) exc) s N"
proof -
  have ready: "\<not> running_here s" "busy s = []" "me s \<notin> range (loop_home h)"
    "resolve_loop False (pid s) (tl s) = parent" "fits (me s) (pframe s) N c" "me s = me s0"
    "grows (pframe s0) (pframe s)" using after unfolding sync_after_def sync_ready_def by blast+
  let ?l = "loop_of_call d force s" and ?e = "next_exec s"
  let ?own = "own(?e := me s)"
  let ?body = "\<lambda>lts x f. case run_async a h ?own (Suc d) (Suc ?e) x (loop_task h ?l lts s f) of (r, k) \<Rightarrow> (r, frame k)"
  let ?env = "crossing_env h d force exc s ?body"
  have loop: "?l = (case parent of Some l \<Rightarrow> if force then d else l | None \<Rightarrow> d)"
    using ready(4) by (auto simp: loop_of_call_def resolve_loop_def split: option.splits)
  note begin1 = begins_fits [OF ready(5) refl, of h d force exc ?body]
  let ?k = "loop_task h ?l (loops_seen ?env s) s (begins (=) ?env s)"
  have "async_after h ?own (Some (me s0)) (VExecutor ?e) ?k ?k N"
    using begin1 ready(3,6) by (simp add: async_after_def async_ready_def loop_task_def)
  from body [OF this, of "Suc ?e"] obtain k where
    k: "run_async a h ?own (Suc d) (Suc ?e) exc ?k =
        (map_sum id Some (fst (plain_async a g (Suc d) ?l (Some (me s0)) exc N)), k)"
      "async_after h ?own (Some (me s0)) (VExecutor ?e) ?k k (snd (plain_async a g (Suc d) ?l (Some (me s0)) exc N))"
    by (auto simp: agrees_def loop_task_def)
  have "handled ?env = exc" by (simp add: crossing_env_def)
  then have "awaited (=) ?env s = (map_sum id Some (fst (plain_async a g (Suc d) ?l (Some (me s0)) exc N)), frame k)"
    using k(1) by (simp add: awaited_def) (simp add: crossing_env_def)
  moreover have at: "loop_thread ?k = loop_home h ?l" "frame ?k = begins (=) ?env s"
    by (simp_all add: loop_task_def)
  have res: "fits (loop_thread k) (frame k) (snd (plain_async a g (Suc d) ?l (Some (me s0)) exc N)) (VExecutor ?e)"
    "loop_thread k = loop_thread ?k" "grows (frame ?k) (frame k)"
    using k(2) unfolding async_after_def async_ready_def by blast+
  have "fits (loop_home h ?l) (frame k) (snd (plain_async a g (Suc d) ?l (Some (me s0)) exc N)) (VExecutor ?e)"
    "grows (begins (=) ?env s) (frame k)" using res(1) res(3) unfolding res(2) at .
  ultimately obtain t where t: "async_to_sync_call (=) ?env s =
      Some (map_sum id Some (fst (plain_async a g (Suc d) ?l (Some (me s0)) exc N)), t)" "same_caller s t"
    "fits (me s) (pframe t) (snd (plain_async a g (Suc d) ?l (Some (me s0)) exc N)) c" "grows (pframe s) (pframe t)"
    using async_crossing [OF ready(1,2,5) refl, of h d force exc ?body] by blast
  have "resolve_loop False (pid t) (tl t) = resolve_loop False (pid s) (tl s)"
    using t(2) by (auto simp: same_caller_def resolve_loop_def split: option.split)
  with t(2-4) ready grows_trans [OF ready(7) t(4)]
  have "sync_after h parent c s0 t (snd (plain_async a g (Suc d) ?l (Some (me s0)) exc N))"
    by (simp add: sync_after_def sync_ready_def same_caller_def)
  with t(1) loop show ?thesis by (simp add: agrees_def)
qed

lemma selected:
  assumes "async_ready h own owner k N c"
  shows "\<exists>x k1. select_executor (plain_wrapper sensitive) k = (Inr x, k1) \<and>
    (k1 = k \<or> k1 = set_deadlock True k \<or>
      (\<exists>y. sensitive_manager k = Some y \<and> k1 = k\<lparr>pools := snd (context_executor y (pools k))\<rparr>)) \<and>
    runner_thread h own d x = (if sensitive then (case owner of Some t \<Rightarrow> t | None \<Rightarrow> sensitive_home h k) else pool_thread h d) \<and>
    (\<forall>e. x = OnCurrent e \<or> x = OnLoopThread e \<longrightarrow> owner = Some (own e))"
proof -
  have fit: "current_of (loop_thread k) (frame k) = c" "fits (loop_thread k) (frame k) N c"
    using assms unfolding async_ready_def fits_def by blast+
  show ?thesis
  proof (cases owner)
    case None
    with assms fit have top: "parent_executor k = None"
      by (simp add: async_ready_def parent_executor_def)
    show ?thesis
    proof (cases "sensitive_manager k")
      case (Some y)
      obtain p m where "context_executor y (pools k) = (p, m)" by fastforce
      with None Some top show ?thesis
        by (simp add: select_executor_def plain_wrapper_def sensitive_home_def)
    next
      case none: None
      with fits_manager [OF fit(2)] None assms have "loop_executors k (this_loop k) = None" "flag_down (frame k)"
        by (simp_all add: async_ready_def)
      then show ?thesis using None top none
        by (simp add: select_executor_def plain_wrapper_def sensitive_home_def flag_down_def deadlock_flag_def)
    qed
  next
    case (Some t)
    with assms obtain e where "c = VExecutor e" "own e = t" by (auto simp: async_ready_def)
    with fit have "parent_executor k = Some e" "own e = t" by (simp_all add: parent_executor_def)
    with Some show ?thesis by (simp add: select_executor_def plain_wrapper_def)
  qed
qed

lemma sync_to_async_agrees:
  assumes host: "host_ok h" and after: "async_after h own owner c k0 k N"
    and home: "owner = None \<Longrightarrow> st = sensitive_home h k0"
    and body: "\<And>parent e s0 s M. sync_after h parent e s0 s M \<Longrightarrow>
      agrees (sync_after h parent e s0) (run_sync p h own d exc)
        (plain_sync p (h\<lparr>single_thread := st\<rparr>) d parent (me s0) exc) s M"
  shows "agrees (async_after h own owner c k0) (run_async (SyncToAsync sensitive p) h own d n exc)
    (plain_async (SyncToAsync sensitive p) (h\<lparr>single_thread := st\<rparr>) d (this_loop k0) owner exc) k N"
proof -
  have ready: "async_ready h own owner k N c" "loop_thread k = loop_thread k0" "this_loop k = this_loop k0"
    "grows (frame k0) (frame k)" "same_pools k0 k" using after by (simp_all add: async_after_def)
  let ?g = "h\<lparr>single_thread := st\<rparr>"
  have k: "fits (loop_thread k) (frame k) N c" "loop_thread k = loop_home h (this_loop k)"
    using ready(1) unfolding async_ready_def by blast+
  have st: "owner = None \<Longrightarrow> st = sensitive_home h k" using home same_pools_home [OF ready(5)] by simp
  obtain w where w: "w = (if sensitive then (case owner of Some t \<Rightarrow> t | None \<Rightarrow> sensitive_home h k)
      else pool_thread h d)" by simp
  then have plain_w: "w = (if sensitive then (case owner of Some t \<Rightarrow> t | None \<Rightarrow> single_thread ?g) else pool_thread ?g d)"
    using st by (cases owner) simp_all
  obtain x k1 where x: "select_executor (plain_wrapper sensitive) k = (Inr x, k1)"
    "k1 = k \<or> k1 = set_deadlock True k \<or>
      (\<exists>y. sensitive_manager k = Some y \<and> k1 = k\<lparr>pools := snd (context_executor y (pools k))\<rparr>)"
    "runner_thread h own d x = w" "\<forall>e. x = OnCurrent e \<or> x = OnLoopThread e \<longrightarrow> owner = Some (own e)"
    using selected [OF ready(1), of sensitive] unfolding w by blast
  then obtain m where m: "k1 = k \<or> k1 = set_deadlock True k \<or> k1 = k\<lparr>pools := m\<rparr>" by blast
  have outside: "w \<notin> range (loop_home h)"
    using host ready(1) by (cases owner) (auto simp: w host_ok_def async_ready_def sensitive_home_def split: option.split)
  let ?body = "\<lambda>y th f. case run_sync p h own d y (worker_process h (thread_for h own d sensitive k) n th k f) of
      (r, s) \<Rightarrow> (r, pframe s)"
  obtain env where env: "env = job_env h own d exc (loop_thread k) ?body" by simp
  have worker: "worker_of env x = w" "thread_for h own d sensitive k = w"
    using x(1,3) by (simp_all add: env job_env_def thread_for_def)
  have "refuses env x = None"
    using x(4) ready(1) k(2) by (auto simp: env job_env_def async_ready_def split: runner.split)
  have k1: "fits (loop_thread k) (frame k1) N c" using m k(1) set_deadlock_fits [OF k(1)] by auto
  let ?s = "worker_process h w n (worker_local env k) k (worker_frame (=) w (frame k1))"
  have "resolve_loop False (os_id h) (worker_local env k) = Some (this_loop k)"
    using host by (simp add: resolve_loop_def worker_local_def env job_env_def host_ok_def)
  then have "sync_after h (Some (this_loop k)) c ?s ?s N"
    using worker_fits [OF k1] outside by (simp add: sync_after_def sync_ready_def worker_process_def)
  from body [OF this] obtain s where s: "run_sync p h own d exc ?s =
      (map_sum id Some (fst (plain_sync p ?g d (Some (this_loop k)) w exc N)), s)"
    "sync_after h (Some (this_loop k)) c ?s s (snd (plain_sync p ?g d (Some (this_loop k)) w exc N))"
    by (auto simp: agrees_def worker_process_def)
  have "?body exc (worker_local env k) (worker_frame (=) (worker_of env x) (frame k1)) =
      (map_sum id Some (fst (plain_sync p ?g d (Some (this_loop k)) w exc N)), pframe s)"
    unfolding worker s(1) prod.case ..
  moreover have "fits w (pframe s) (snd (plain_sync p ?g d (Some (this_loop k)) w exc N)) c"
    "grows (worker_frame (=) w (frame k1)) (pframe s)"
    using s(2) by (auto simp: sync_after_def sync_ready_def worker_process_def)
  ultimately obtain k' where k': "sync_to_async_call (=) (plain_wrapper sensitive) env k =
      (map_sum id Some (fst (plain_sync p ?g d (Some (this_loop k)) w exc N)), k')"
    "loop_thread k' = loop_thread k" "this_loop k' = this_loop k" "loop_executors k' = loop_executors k"
    "fits (loop_thread k) (frame k') (snd (plain_sync p ?g d (Some (this_loop k)) w exc N)) c"
    "grows (frame k) (frame k')" "flag_down (frame k')" "pools k' = pools k1"
    using sync_crossing [OF k(1) x(1) m env \<open>refuses env x = None\<close>] unfolding worker(1) by blast
  have same: "within (snd (plain_sync p ?g d (Some (this_loop k)) w exc N)) = within N" by (rule plain_within)
  have "sensitive_manager k' = sensitive_manager k"
    using fits_manager [OF k(1)] fits_manager [OF k'(5)] same by simp
  then have "same_pools k k'" using x(2) k'(8) by (auto simp: same_pools_def set_deadlock_def)
  from same_pools_trans [OF ready(5) this] have pools: "same_pools k0 k'" .
  have "async_after h own owner c k0 k' (snd (plain_sync p ?g d (Some (this_loop k)) w exc N))"
    using ready k'(2-7) same pools grows_trans [OF ready(4) k'(6)]
    by (auto simp: async_after_def async_ready_def split: option.splits)
  with k'(1) ready(3) show ?thesis unfolding env plain_w by (simp add: agrees_def)
qed

lemma nested_agrees:
  "host_ok h \<Longrightarrow> sync_after h parent c s0 s N \<Longrightarrow>
     agrees (sync_after h parent c s0) (run_sync p h own d exc)
       (plain_sync p (h\<lparr>single_thread := st\<rparr>) d parent (me s0) exc) s N"
  "host_ok h \<Longrightarrow> async_after h own owner c k0 k N \<Longrightarrow> owner = None \<longrightarrow> st = sensitive_home h k0 \<Longrightarrow>
     agrees (async_after h own owner c k0) (run_async a h own d n exc)
       (plain_async a (h\<lparr>single_thread := st\<rparr>) d (this_loop k0) owner exc) k N"
proof (induction p and a arbitrary: parent c s0 s N own d exc and owner c k0 k N own d n exc)
  case (SDo x)
  then show ?case using sync_action_agrees by simp
next
  case (SSeq p q)
  then show ?case by (simp add: agrees_turn)
next
  case (STry p q)
  then show ?case by (simp add: agrees_try)
next
  case (AsyncToSync force a)
  show ?case
    by (rule async_to_sync_agrees [OF AsyncToSync.prems(2)])
      (rule AsyncToSync.IH [OF AsyncToSync.prems(1)], simp_all)
next
  case (ADo x)
  then show ?case using async_action_agrees by simp
next
  case (ASeq a b)
  then show ?case by (simp add: agrees_turn)
next
  case (ATry a b)
  then show ?case by (simp add: agrees_try)
next
  case (SyncToAsync sensitive p)
  show ?case
    by (rule sync_to_async_agrees [OF SyncToAsync.prems(1,2) _ SyncToAsync.IH [OF SyncToAsync.prems(1)]])
      (use SyncToAsync.prems(3) in simp)
qed

lemma nested_sync:
  assumes "host_ok h" and "sync_ready h parent s N c"
  shows "\<exists>t. run_sync p h own d exc s = (map_sum id Some (fst (plain_sync p h d parent (me s) exc N)), t) \<and>
    sync_after h parent c s t (snd (plain_sync p h d parent (me s) exc N))"
proof -
  have "sync_after h parent c s s N" using assms(2) by (simp add: sync_after_def)
  from nested_agrees(1) [OF assms(1) this, of p own d exc "single_thread h"] show ?thesis by (simp add: agrees_def)
qed

lemma nested_async:
  assumes "host_ok h" and "async_ready h own None k N c" and "g = h\<lparr>single_thread := sensitive_home h k\<rparr>"
  shows "\<exists>t. run_async a h own d n exc k = (map_sum id Some (fst (plain_async a g d (this_loop k) None exc N)), t) \<and>
    async_after h own None c k t (snd (plain_async a g d (this_loop k) None exc N))"
proof -
  have "async_after h own None c k k N" using assms(2) by (simp add: async_after_def)
  from nested_agrees(2) [OF assms(1) this, of "sensitive_home h k" a d n exc] assms(3) show ?thesis
    by (simp add: agrees_def)
qed

section \<open>What nested calls promise\<close>


text \<open>Programs in which every \<open>sync_to_async\<close> is thread-sensitive, and no call forces a new loop.\<close>

primrec all_sensitive :: "sync_code \<Rightarrow> bool" and all_sensitive_async :: "async_code \<Rightarrow> bool" where
  "all_sensitive (SDo a) = True"
| "all_sensitive (SSeq p q) = (all_sensitive p \<and> all_sensitive q)"
| "all_sensitive (STry p q) = (all_sensitive p \<and> all_sensitive q)"
| "all_sensitive (AsyncToSync force a) = all_sensitive_async a"
| "all_sensitive_async (ADo a) = True"
| "all_sensitive_async (ASeq a b) = (all_sensitive_async a \<and> all_sensitive_async b)"
| "all_sensitive_async (ATry a b) = (all_sensitive_async a \<and> all_sensitive_async b)"
| "all_sensitive_async (SyncToAsync sensitive p) = (sensitive \<and> all_sensitive p)"

primrec never_forced :: "sync_code \<Rightarrow> bool" and never_forced_async :: "async_code \<Rightarrow> bool" where
  "never_forced (SDo a) = True"
| "never_forced (SSeq p q) = (never_forced p \<and> never_forced q)"
| "never_forced (STry p q) = (never_forced p \<and> never_forced q)"
| "never_forced (AsyncToSync force a) = (\<not> force \<and> never_forced_async a)"
| "never_forced_async (ADo a) = True"
| "never_forced_async (ASeq a b) = (never_forced_async a \<and> never_forced_async b)"
| "never_forced_async (ATry a b) = (never_forced_async a \<and> never_forced_async b)"
| "never_forced_async (SyncToAsync sensitive p) = never_forced p"

text \<open>Which events a plain run reports: \<open>P\<close> holds of all of them if it does of those of its actions.\<close>

definition all_events :: "(event \<Rightarrow> bool) \<Rightarrow> ('n \<Rightarrow> (exn + event list) \<times> 'n) \<Rightarrow> bool" where
  "all_events P b \<longleftrightarrow> (\<forall>N xs. fst (b N) = Inr xs \<longrightarrow> list_all P xs)"

lemma events_turn: "all_events P a \<Longrightarrow> all_events P b \<Longrightarrow> all_events P (plain_turn a b)"
  by (auto simp: all_events_def plain_turn_def split: prod.splits sum.splits) (metis fst_conv)+

lemma events_try: "all_events P a \<Longrightarrow> (\<And>e. all_events P (b e)) \<Longrightarrow> all_events P (plain_try a b)"
  by (auto simp: all_events_def plain_try_def split: prod.splits sum.splits) (metis fst_conv)+

lemma events_act:
  assumes "P (on t)" and "\<And>v. P (Got v)" and "\<And>v. P (VarIs v)" and "\<And>e. P (InHandler e)"
  shows "all_events P (plain_act on t exc a)"
  using assms by (cases a) (auto simp: all_events_def split: option.splits)

lemma sensitive_threads:
  "all_sensitive p \<Longrightarrow> all_events (\<lambda>x. \<forall>u. x = SyncOn u \<longrightarrow> u = t) (plain_sync p h d parent t exc)"
  "all_sensitive_async a \<Longrightarrow> all_events (\<lambda>x. \<forall>u. x = SyncOn u \<longrightarrow> u = (case owner of Some t \<Rightarrow> t | None \<Rightarrow> single_thread h))
     (plain_async a h d l owner exc)"
proof (induction p and a arbitrary: d parent t exc and d l owner exc)
  case (AsyncToSync force a)
  then show ?case using AsyncToSync.IH [where owner = "Some t"] by simp
next
  case (SyncToAsync sensitive p)
  then show ?case by (cases owner) simp_all
qed (simp_all add: events_act events_turn events_try)

lemma unforced_loops:
  "never_forced p \<Longrightarrow> all_events (\<lambda>x. \<forall>u. x = AsyncOn u \<longrightarrow> u = loop_home h (case parent of Some l \<Rightarrow> l | None \<Rightarrow> d))
     (plain_sync p h d parent t exc)"
  "never_forced_async a \<Longrightarrow> all_events (\<lambda>x. \<forall>u. x = AsyncOn u \<longrightarrow> u = loop_home h l) (plain_async a h d l owner exc)"
proof (induction p and a arbitrary: d parent t exc and d l owner exc)
  case (AsyncToSync force a)
  then show ?case by (cases parent) simp_all
next
  case (SyncToAsync sensitive p)
  then show ?case using SyncToAsync.IH [where parent = "Some l"] by simp
qed (simp_all add: events_act events_turn events_try)

lemma all_eventsD: "all_events P b \<Longrightarrow> fst (b N) = Inr xs \<Longrightarrow> x \<in> set xs \<Longrightarrow> P x"
  by (auto simp: all_events_def list_all_iff)

text \<open>C2: thread-sensitive code never leaves its thread. If every \<open>sync_to_async\<close> of a program is
  thread-sensitive, all its synchronous code, at any depth, runs on the thread that started the
  program, or, for a program started in a task, on the thread of the active \<open>ThreadSensitiveContext\<close> or
  else the process-wide one; and if no call forces a new loop, all asynchronous code of a program
  that is started in a task, or in synchronous code called from a loop, runs on the thread of that
  loop.\<close>

theorem sensitive_code_stays_on_its_thread:
  assumes "host_ok h"
  shows "(sync_ready h parent s N c \<longrightarrow> all_sensitive p \<longrightarrow> fst (run_sync p h own d exc s) = Inr (Some xs) \<longrightarrow>
      (\<forall>u. SyncOn u \<in> set xs \<longrightarrow> u = me s) \<and>
      (never_forced p \<longrightarrow> (\<forall>l u. parent = Some l \<longrightarrow> AsyncOn u \<in> set xs \<longrightarrow> u = loop_home h l))) \<and>
    (async_ready h own None k N c \<longrightarrow> all_sensitive_async a \<longrightarrow>
      fst (run_async a h own d n exc k) = Inr (Some xs) \<longrightarrow>
      (\<forall>u. SyncOn u \<in> set xs \<longrightarrow> u = (case sensitive_manager k of None \<Rightarrow> single_thread h
         | Some x \<Rightarrow> context_thread h (fst (context_executor x (pools k))))) \<and>
      (never_forced_async a \<longrightarrow> (\<forall>u. AsyncOn u \<in> set xs \<longrightarrow> u = loop_thread k)))"
proof (intro conjI impI)
  assume ready: "sync_ready h parent s N c" and sens: "all_sensitive p"
    and run: "fst (run_sync p h own d exc s) = Inr (Some xs)"
  from nested_sync [OF assms ready, of p own d exc] run
  have xs: "fst (plain_sync p h d parent (me s) exc N) = Inr xs"
    by (cases "fst (plain_sync p h d parent (me s) exc N)") auto
  show "\<forall>u. SyncOn u \<in> set xs \<longrightarrow> u = me s"
    using all_eventsD [OF sensitive_threads(1) [OF sens] xs] by blast
  assume "never_forced p"
  from all_eventsD [OF unforced_loops(1) [OF this] xs]
  show "\<forall>l u. parent = Some l \<longrightarrow> AsyncOn u \<in> set xs \<longrightarrow> u = loop_home h l" by fastforce
next
  assume ready: "async_ready h own None k N c" and sens: "all_sensitive_async a"
    and run: "fst (run_async a h own d n exc k) = Inr (Some xs)"
  let ?g = "h\<lparr>single_thread := sensitive_home h k\<rparr>"
  from nested_async [OF assms ready refl, of a d n exc] run
  have xs: "fst (plain_async a ?g d (this_loop k) None exc N) = Inr xs"
    by (cases "fst (plain_async a ?g d (this_loop k) None exc N)") auto
  show "\<forall>u. SyncOn u \<in> set xs \<longrightarrow> u = (case sensitive_manager k of None \<Rightarrow> single_thread h
      | Some x \<Rightarrow> context_thread h (fst (context_executor x (pools k))))"
    using all_eventsD [OF sensitive_threads(2) [OF sens, where owner = None] xs]
    unfolding sensitive_home_def by simp
  have "loop_thread k = loop_home ?g (this_loop k)" using ready unfolding async_ready_def by simp
  moreover assume "never_forced_async a"
  note all_eventsD [OF unforced_loops(2) [OF this] xs]
  ultimately show "\<forall>u. AsyncOn u \<in> set xs \<longrightarrow> u = loop_thread k" by (metis (no_types))
qed

text \<open>
  A machine, a thread on it, and a program that goes down three levels: the caller's \<open>Local\<close> is
  read and changed below, the exception raised in the loop is handled in the caller.
\<close>

definition demo_host :: host where
  "demo_host = \<lparr>loop_home = (\<lambda>l. 100 + l), single_thread = 50, pool_thread = (\<lambda>d. 51 + d mod 9),
     context_thread = (\<lambda>p. 61 + p mod 9), os_id = 9\<rparr>"

definition demo_thread :: process where
  "demo_thread = \<lparr>me = 1, pid = 9, running_here = False,
     tl = \<lparr>main_event_loop_pid = None, main_event_loop = None, task_context = None\<rparr>,
     pframe = \<lparr>mem = \<lparr>dicts = (\<lambda>_. []), next_addr = 0\<rparr>, ctx = []\<rparr>, next_exec = 0, above = (\<lambda>_. VNone),
     managers = new_mgr, loop_threads = (\<lambda>_. None), busy = []\<rparr>"

definition no_names :: names where
  "no_names = \<lparr>attrs = (\<lambda>_. Map.empty), vars = (\<lambda>_. None), within = None\<rparr>"

definition demo_code :: sync_code where
  "demo_code = SSeq (SDo (SetAttr 0 ''user'' 4))
     (STry (AsyncToSync False (ASeq (ADo Ident)
              (ASeq (SyncToAsync True (SSeq (SDo (SetAttr 0 ''user'' 5)) (AsyncToSync False (ADo (SetVar 2 6)))))
                 (ADo (Throw (UserExc 3))))))
        (SSeq (SDo ExcInfo) (SSeq (SDo (GetAttr 0 ''user'')) (AsyncToSync True
           (ASeq (ADo (GetVar 2)) (ASeq (ADo ExcInfo) (ASeq (ADo Ident) (SyncToAsync True (SDo Ident)))))))))"

lemma demo_host_ok: "host_ok demo_host"
  by (auto simp: host_ok_def demo_host_def)

lemma demo_thread_ready: "sync_ready demo_host None demo_thread no_names VNone"
  by (auto simp: sync_ready_def demo_host_def demo_thread_def no_names_def fits_def owned_frame_def
      resolve_loop_def local_look_data current_of_def)

lemma demo_code_plain:
  "fst (plain_sync demo_code demo_host 0 None 1 None no_names) = Inr [InHandler (Some (UserExc 3)), Got (VUser 5),
     VarIs (Some 6), InHandler (Some (UserExc 3)), AsyncOn 100, SyncOn 1]"
  by (simp add: demo_code_def demo_host_def no_names_def plain_turn_def plain_try_def own_slots_def)


theorem sensitive_code_stays_on_its_thread_witness:
  "\<exists>xs. fst (run_sync demo_code demo_host (\<lambda>_. 0) 0 None demo_thread) = Inr (Some xs) \<and>
     SyncOn 1 \<in> set xs \<and> (\<forall>u. SyncOn u \<in> set xs \<longrightarrow> u = me demo_thread)"
proof -
  have me: "me demo_thread = 1" by (simp add: demo_thread_def)
  from nested_sync [OF demo_host_ok demo_thread_ready, of demo_code "\<lambda>_. 0" 0 None] demo_code_plain
  obtain xs where xs: "fst (run_sync demo_code demo_host (\<lambda>_. 0) 0 None demo_thread) = Inr (Some xs)"
    "SyncOn 1 \<in> set xs" unfolding me by auto
  have "all_sensitive demo_code" by (simp add: demo_code_def)
  with sensitive_code_stays_on_its_thread [OF demo_host_ok, THEN conjunct1, THEN mp, OF demo_thread_ready,
      THEN mp, OF this, THEN mp, OF xs(1)] xs show ?thesis by blast
qed

end
