(* ===== verification/Nested_Contexts.thy ===== *)
theory Nested_Contexts
  imports Nested_Refinement
begin

text \<open>
  A task that runs a program of nested calls under \<open>ThreadSensitiveContext\<close>, the way a server
  handles one request: where its thread-sensitive code runs, and what is left when the context has
  been left.
\<close>

section \<open>A task under a context manager\<close>




text \<open>Entering and leaving, in a task that is under no other manager.\<close>

lemma managers_differ [simp]: "single_thread_var \<noteq> thread_sensitive_var" "executors_var \<noteq> thread_sensitive_var"
  by (simp_all add: single_thread_var_def thread_sensitive_var_def executors_var_def local_cvar_name_def)




section \<open>One request\<close>









end
