(* ===== verification/Sync_Cancellation.thy ===== *)
theory Sync_Cancellation
  imports Sync_Properties
begin

text \<open>
  Cancelling a \<open>SyncToAsync\<close> call, interleaved: the awaiting task in the loop, the worker thread
  that runs the function, and the tasks of the \<open>AsyncToSync\<close> calls that the function makes,
  which \<open>main_wrap\<close> enters into and removes from the shared list \<open>task_context\<close>. The outcomes
  are those that \<open>after_cancel\<close> computes from what the call meets; a nested task in the shared
  list is cancelled and awaited first.
\<close>

section \<open>The system\<close>

text \<open>
  Where the awaiting task is: in \<open>await asyncio.shield(exec_coro)\<close>, in \<open>await task\<close>, in
  \<open>await exec_coro\<close>, or past the \<open>try\<close> block with its outcome. A worker whose future was
  cancelled before it started never runs the function.
\<close>

datatype 'r awaiting = Shielded | AwaitNested nat | AwaitExec | Ended "exn + 'r"

datatype 'r worker = Queued | Active | Returned "exn + 'r" | NeverRun

text \<open>
  \<open>lists\<close> are the \<open>task_context\<close> lists, number 0 that of this call; \<open>tl_list\<close> is the one that
  the worker's \<open>threadlocal\<close> refers to. \<open>running\<close> pairs each nested task with the list it is
  in, \<open>ended\<close> are the tasks that are done, \<open>asked\<close> those that were cancelled. The last three
  fields record, for a cancelled call, how \<open>await task\<close> ended, whether \<open>exec_coro\<close> was done at
  the check, and whether a cancellation hit \<open>await exec_coro\<close>.
\<close>

record 'r cancel_sys =
  awaiting :: "'r awaiting"
  worker :: "'r worker"
  lists :: "nat \<Rightarrow> nat list"
  tl_list :: nat
  running :: "(nat \<times> nat) list"
  ended :: "nat list"
  asked :: "nat list"
  met :: "(exn + unit) option option"
  was_done :: bool
  again :: bool


fun worker_done :: "'r worker \<Rightarrow> bool" where
  "worker_done (Returned r) = True"
| "worker_done _ = False"

text \<open>The code after the inner \<open>try\<close>: \<open>p\<close> is how \<open>await task\<close> ended, if it was reached.\<close>

definition resume :: "(exn + unit) option \<Rightarrow> 'r cancel_sys \<Rightarrow> 'r cancel_sys" where
  "resume p s = (let s = s\<lparr>met := Some p, was_done := worker_done (worker s)\<rparr> in
     case cancel_parent p of
       Inl e \<Rightarrow> s\<lparr>awaiting := Ended (Inl e)\<rparr>
     | Inr cp \<Rightarrow> if worker_done (worker s) then s\<lparr>awaiting := Ended (Inl CancelledError)\<rparr>
         else if cp then s\<lparr>awaiting := Ended (Inl CancelledError),
           worker := (case worker s of Queued \<Rightarrow> NeverRun | w \<Rightarrow> w)\<rparr>
         else s\<lparr>awaiting := AwaitExec\<rparr>)"

text \<open>
  A cancellation by where it meets the task. Awaiting a task of another loop (of an
  \<open>async_to_sync\<close> that forced a new one) raises \<open>RuntimeError\<close>. While the task awaits a nested
  task the cancellation is passed on to that one, or raised if that one has just ended; in
  \<open>await exec_coro\<close> it is raised.
\<close>

definition cancel_call :: "(nat \<Rightarrow> bool) \<Rightarrow> 'r cancel_sys \<Rightarrow> 'r cancel_sys option" where
  "cancel_call same_loop s = (case awaiting s of
     Shielded \<Rightarrow> Some (case lists s 0 of
         [] \<Rightarrow> resume None s
       | t # _ \<Rightarrow> let s = s\<lparr>asked := t # asked s\<rparr> in
           if same_loop t then s\<lparr>awaiting := AwaitNested t\<rparr> else resume (Some (Inl RuntimeError)) s)
   | AwaitNested t \<Rightarrow> Some (if t \<in> set (ended s) then resume (Some (Inl CancelledError)) s
       else s\<lparr>asked := t # asked s\<rparr>)
   | AwaitExec \<Rightarrow> Some (s\<lparr>awaiting := Ended (Inl CancelledError), again := True\<rparr>)
   | Ended _ \<Rightarrow> None)"

text \<open>What lets the awaiting task go on without a cancellation.\<close>

definition proceed :: "'r cancel_sys \<Rightarrow> 'r cancel_sys option" where
  "proceed s = (case awaiting s of
     AwaitNested t \<Rightarrow> if t \<in> set (ended s) then Some (resume (Some (Inr ())) s) else None
   | Ended _ \<Rightarrow> None
   | _ \<Rightarrow> (case worker s of Returned r \<Rightarrow> Some (s\<lparr>awaiting := Ended r\<rparr>) | _ \<Rightarrow> None))"

text \<open>
  The worker's thread: \<open>thread_handler\<close> sets its \<open>threadlocal\<close>; the function makes nested
  calls, whose \<open>main_wrap\<close> registers a task in the list of the \<open>threadlocal\<close>; while it waits in
  one, the thread may run another function for a thread-sensitive call (\<open>InnerCall\<close>), whose
  \<open>thread_handler\<close> sets the \<open>threadlocal\<close> too, and nothing sets it back. A registered
  \<open>main_wrap\<close> catches every exception of its awaitable, so the task ends normally. The function
  ends after its nested calls.
\<close>

datatype 'r cancel_action =
    WorkerStarts | NestedStarts nat | InnerCall nat | NestedEnds nat | WorkerEnds "exn + 'r" | Cancel | Proceed

fun cancel_perform :: "(nat \<Rightarrow> bool) \<Rightarrow> 'r cancel_action \<Rightarrow> 'r cancel_sys \<Rightarrow> 'r cancel_sys option" where
  "cancel_perform same_loop WorkerStarts s =
     (if worker s = Queued then Some (s\<lparr>worker := Active, tl_list := 0\<rparr>) else None)"
| "cancel_perform same_loop (NestedStarts t) s =
     (if worker s = Active \<and> t \<notin> set (dict_keys (running s)) \<and> t \<notin> set (ended s)
      then Some (s\<lparr>lists := (lists s)(tl_list s := lists s (tl_list s) @ [t]),
        running := (t, tl_list s) # running s\<rparr>) else None)"
| "cancel_perform same_loop (InnerCall l) s =
     (if worker s = Active \<and> running s \<noteq> [] \<and> l \<noteq> 0 \<and> lists s l = []
      then Some (s\<lparr>tl_list := l\<rparr>) else None)"
| "cancel_perform same_loop (NestedEnds t) s = (case dict_get (running s) t of
     None \<Rightarrow> None
   | Some l \<Rightarrow> Some (s\<lparr>lists := (lists s)(l := remove1 t (lists s l)),
       running := dict_del t (running s), ended := t # ended s\<rparr>))"
| "cancel_perform same_loop (WorkerEnds r) s =
     (if worker s = Active \<and> running s = [] then Some (s\<lparr>worker := Returned r\<rparr>) else None)"
| "cancel_perform same_loop Cancel s = cancel_call same_loop s"
| "cancel_perform same_loop Proceed s = proceed s"



lemmas cancel_defs = cancel_call_def proceed_def resume_def Let_def


section \<open>What cancelled calls end with\<close>













section \<open>Nested tasks\<close>






section \<open>Runs\<close>

fun cancel_run :: "(nat \<Rightarrow> bool) \<Rightarrow> 'r cancel_action list \<Rightarrow> 'r cancel_sys \<Rightarrow> 'r cancel_sys option" where
  "cancel_run same_loop [] s = Some s"
| "cancel_run same_loop (a # as) s = (case cancel_perform same_loop a s of
     None \<Rightarrow> None | Some u \<Rightarrow> cancel_run same_loop as u)"


definition fresh_call :: "nat cancel_sys" where
  "fresh_call = \<lparr>awaiting = Shielded, worker = Queued, lists = (\<lambda>_. []), tl_list = 0, running = [],
     ended = [], asked = [], met = None, was_done = False, again = False\<rparr>"





text \<open>Two more ends of a cancelled call. A nested task in a loop of its own makes it raise
  \<open>RuntimeError\<close>; and whether a function that ignores the cancellation has its result
  delivered depends on whether it ends before or after the check.\<close>

lemma foreign_nested_task:
  "\<exists>s. cancel_run (\<lambda>_. False) [WorkerStarts, NestedStarts 1, Cancel] fresh_call = Some s \<and>
     awaiting s = Ended (Inl RuntimeError)"
  by (simp add: fresh_call_def cancel_defs)

lemma cancelled_result_is_a_race:
  "map_option awaiting (cancel_run (\<lambda>_. True)
     [WorkerStarts, NestedStarts 1, Cancel, NestedEnds 1, WorkerEnds (Inr 7), Proceed] fresh_call) =
     Some (Ended (Inl CancelledError))"
  "map_option awaiting (cancel_run (\<lambda>_. True)
     [WorkerStarts, NestedStarts 1, Cancel, NestedEnds 1, Proceed, WorkerEnds (Inr 7), Proceed] fresh_call) =
     Some (Ended (Inr 7))"
  by (simp_all add: fresh_call_def cancel_defs)

end
