(* ===== verification/Decorators.thy ===== *)
theory Decorators
  imports Sync_Properties
begin

text \<open>
  How the two wrappers of \<open>asgiref/sync.py\<close> are applied: \<open>async_to_sync\<close> and \<open>sync_to_async\<close>
  called with a function or used as decorators with options, the attributes that the
  constructors copy, access as a method through \<open>__get__\<close>, and how the wrappers themselves look
  to the checks that decide what may be wrapped.
\<close>

section \<open>Arguments and callables\<close>

text \<open>
  Positional and keyword arguments. \<open>partial_call f given\<close> is \<open>functools.partial\<close>: later positional
  arguments are appended, later keywords override.
\<close>

type_synonym 'a args = "'a list \<times> (string, 'a) dict"

fun add_args :: "'a args \<Rightarrow> 'a args \<Rightarrow> 'a args" where
  "add_args (ps, ks) (qs, ls) = (ps @ qs, foldl (\<lambda>d (k, v). dict_set k v d) ks ls)"

definition partial_call :: "('a args \<Rightarrow> 'm) \<Rightarrow> 'a args \<Rightarrow> 'a args \<Rightarrow> 'm" where
  "partial_call f given later = f (add_args given later)"

abbreviation no_args :: "'a args" where
  "no_args \<equiv> ([], [])"

lemma partial_no_args [simp]: "partial_call f given no_args = f given"
  by (cases given) (simp add: partial_call_def)

lemma foldl_dict_set_fresh:
  "dict_ok (d @ ls) \<Longrightarrow> foldl (\<lambda>d (k, v). dict_set k v d) d ls = d @ ls"
proof (induction ls arbitrary: d)
  case (Cons l ls)
  obtain k v where l: "l = (k, v)" by (cases l)
  from Cons.prems l have "k \<notin> set (dict_keys d)" by (auto simp: dict_ok_def)
  then have "dict_set k v d = d @ [(k, v)]" by (rule dict_set_fresh)
  with Cons.IH [of "d @ [(k, v)]"] Cons.prems l show ?case by simp
qed simp

lemma partial_first_argument: "dict_ok (snd args) \<Longrightarrow> partial_call f ([p], []) args = f (p # fst args, snd args)"
  by (cases args) (simp add: partial_call_def foldl_dict_set_fresh)

text \<open>
  A Python object that can be called: what introspection says about it, its \<open>__self__\<close> if it
  has one, and what calling it does.
\<close>

record ('a, 'm) pyobject =
  looks :: callable
  bound_self :: "'a option"
  run :: "'a args \<Rightarrow> 'm"

text \<open>
  \<open>markcoroutinefunction\<close>, in either of its two versions: the object counts as a coroutine
  function from then on.
\<close>

definition markcoroutinefunction :: "callable \<Rightarrow> callable" where
  "markcoroutinefunction c = c\<lparr>is_coroutine_function := True\<rparr>"

text \<open>An instance of a class with a \<open>__call__\<close> method, before any mark; a partial of a method.\<close>

definition instance_looks :: "bool \<Rightarrow> callable" where
  "instance_looks async_call = \<lparr>is_callable = True, is_coroutine_function = False,
     directly_introspectable = False, call_is_coroutine_function = async_call\<rparr>"

definition partial_looks :: "bool \<Rightarrow> callable" where
  "partial_looks async_call = \<lparr>is_callable = True, is_coroutine_function = async_call,
     directly_introspectable = True, call_is_coroutine_function = False\<rparr>"

section \<open>AsyncToSync\<close>

type_synonym 'r coroutine = "(loop \<Rightarrow> nat option) \<Rightarrow> exn option \<Rightarrow> val frame \<Rightarrow> (exn + 'r) \<times> val frame"

type_synonym ('a, 'r) awaitable = "('a, exn + 'r coroutine) pyobject"

record ('a, 'r) async_to_sync =
  awaitable :: "('a, 'r) awaitable"
  async_self :: "'a option"
  always_new_loop :: bool

text \<open>The constructor: true if it warns, and the object. It never fails.\<close>

definition async_to_sync_init :: "('a, 'r) awaitable \<Rightarrow> bool \<Rightarrow> bool \<times> ('a, 'r) async_to_sync" where
  "async_to_sync_init f force = (async_to_sync_warns (looks f),
     \<lparr>awaitable = f, async_self = bound_self f, always_new_loop = force\<rparr>)"

text \<open>Calling the wrapper: the awaitable is created from the arguments inside the call.\<close>

definition async_to_sync_apply :: "(val \<Rightarrow> val \<Rightarrow> bool) \<Rightarrow> ('a, 'r) async_to_sync \<Rightarrow> 'r call_env \<Rightarrow>
    'a args \<Rightarrow> process \<Rightarrow> ((exn + 'r) \<times> process) option" where
  "async_to_sync_apply veq w env args = (case run (awaitable w) args of
     Inl e \<Rightarrow> async_to_sync_call veq (env\<lparr>force_new_loop := always_new_loop w, created := Inl e\<rparr>)
   | Inr c \<Rightarrow> async_to_sync_call veq
       (env\<lparr>force_new_loop := always_new_loop w, created := Inr (), coro := c\<rparr>))"

definition async_to_sync_object :: "(val \<Rightarrow> val \<Rightarrow> bool) \<Rightarrow> 'r call_env \<Rightarrow> ('a, 'r) async_to_sync \<Rightarrow>
    ('a, process \<Rightarrow> ((exn + 'r) \<times> process) option) pyobject" where
  "async_to_sync_object veq env w = \<lparr>looks = instance_looks False, bound_self = async_self w,
     run = async_to_sync_apply veq w env\<rparr>"

definition async_to_sync_get :: "(val \<Rightarrow> val \<Rightarrow> bool) \<Rightarrow> 'r call_env \<Rightarrow> ('a, 'r) async_to_sync \<Rightarrow> 'a \<Rightarrow>
    ('a, process \<Rightarrow> ((exn + 'r) \<times> process) option) pyobject" where
  "async_to_sync_get veq env w parent = \<lparr>looks = partial_looks False, bound_self = None,
     run = partial_call (async_to_sync_apply veq w env) ([parent], [])\<rparr>"

section \<open>SyncToAsync\<close>

type_synonym 'r job = "exn option \<Rightarrow> threadlocal \<Rightarrow> val frame \<Rightarrow> (exn + 'r) \<times> val frame"

type_synonym ('a, 'r) sync_function = "('a, 'r job) pyobject"

record ('a, 'r) sync_wrapper =
  wrapped :: "('a, 'r) sync_function"
  sync_self :: "'a option"
  settings :: sync_to_async

definition sync_wrapper_init :: "('a, 'r) sync_function \<Rightarrow> bool \<Rightarrow> nat option \<Rightarrow> val ctxt option \<Rightarrow>
    exn + ('a, 'r) sync_wrapper" where
  "sync_wrapper_init f sensitive executor context = (case sync_to_async_init (looks f) sensitive executor context of
     Inl e \<Rightarrow> Inl e
   | Inr s \<Rightarrow> Inr \<lparr>wrapped = f, sync_self = bound_self f, settings = s\<rparr>)"

text \<open>Calling the wrapper: \<open>child\<close> is the function with its arguments bound, run with none.\<close>

definition sync_to_async_apply :: "(val \<Rightarrow> val \<Rightarrow> bool) \<Rightarrow> ('a, 'r) sync_wrapper \<Rightarrow> 'r sync_env \<Rightarrow>
    'a args \<Rightarrow> (task, 'r) py" where
  "sync_to_async_apply veq w env args = sync_to_async_call veq (settings w)
     (env\<lparr>child := partial_call (run (wrapped w)) args no_args\<rparr>)"

definition sync_to_async_object :: "(val \<Rightarrow> val \<Rightarrow> bool) \<Rightarrow> 'r sync_env \<Rightarrow> ('a, 'r) sync_wrapper \<Rightarrow>
    ('a, (task, 'r) py) pyobject" where
  "sync_to_async_object veq env w = \<lparr>looks = markcoroutinefunction (instance_looks True),
     bound_self = sync_self w, run = sync_to_async_apply veq w env\<rparr>"

definition sync_to_async_get :: "(val \<Rightarrow> val \<Rightarrow> bool) \<Rightarrow> 'r sync_env \<Rightarrow> ('a, 'r) sync_wrapper \<Rightarrow> 'a \<Rightarrow>
    ('a, (task, 'r) py) pyobject" where
  "sync_to_async_get veq env w parent = \<lparr>looks = partial_looks True, bound_self = None,
     run = partial_call (sync_to_async_apply veq w env) ([parent], [])\<rparr>"

section \<open>The decorator forms\<close>

text \<open>Called with a function, the forms construct the wrapper; without one, they return a decorator.\<close>

datatype ('f, 'w) decorated = Wrapper 'w | Decorator "'f \<Rightarrow> 'w"

definition async_to_sync_form :: "('a, 'r) awaitable option \<Rightarrow> bool \<Rightarrow>
    (('a, 'r) awaitable, bool \<times> ('a, 'r) async_to_sync) decorated" where
  "async_to_sync_form target force = (case target of
     None \<Rightarrow> Decorator (\<lambda>f. async_to_sync_init f force)
   | Some f \<Rightarrow> Wrapper (async_to_sync_init f force))"

definition sync_to_async_form :: "('a, 'r) sync_function option \<Rightarrow> bool \<Rightarrow> nat option \<Rightarrow> val ctxt option \<Rightarrow>
    (('a, 'r) sync_function, exn + ('a, 'r) sync_wrapper) decorated" where
  "sync_to_async_form func sensitive executor context = (case func of
     None \<Rightarrow> Decorator (\<lambda>f. sync_wrapper_init f sensitive executor context)
   | Some f \<Rightarrow> Wrapper (sync_wrapper_init f sensitive executor context))"

text \<open>Applying what a form returned to a function: \<open>form(**options)(f)\<close>, or \<open>form(f, **options)\<close>.\<close>

fun decorate :: "('f, 'w) decorated \<Rightarrow> 'f \<Rightarrow> 'w option" where
  "decorate (Decorator d) f = Some (d f)"
| "decorate (Wrapper w) f = None"

section \<open>Equivalence of the forms, and methods\<close>

lemma sync_wrapper_init_settings:
  "sync_wrapper_init f sensitive ex c = Inr w \<longleftrightarrow> (\<exists>s. sync_to_async_init (looks f) sensitive ex c = Inr s \<and>
     w = \<lparr>wrapped = f, sync_self = bound_self f, settings = s\<rparr>)"
  by (auto simp: sync_wrapper_init_def split: sum.splits)

text \<open>C39: the ways of applying the wrappers agree. \<open>sync_to_async(**options)(f)\<close> is
  \<open>sync_to_async(f, **options)\<close>, errors included, and so for \<open>async_to_sync\<close>, with its warning;
  and looking the wrapper up as a method of an instance and calling it runs the function, in the
  same mode, with the instance as first argument.\<close>

theorem decorator_forms_agree:
  assumes "dict_ok (snd args)"
  shows "sync_to_async_form (Some f) sensitive ex c =
      Wrapper (the (decorate (sync_to_async_form None sensitive ex c) f)) \<and>
    async_to_sync_form (Some g) force = Wrapper (the (decorate (async_to_sync_form None force) g)) \<and>
    (\<forall>w. sync_wrapper_init f sensitive ex c = Inr w \<longrightarrow>
       run (sync_to_async_get veq env w parent) args = sync_to_async_call veq (settings w)
         (env\<lparr>child := run f (parent # fst args, snd args)\<rparr>)) \<and>
    run (async_to_sync_get veq cenv (snd (async_to_sync_init g force)) parent) args =
      async_to_sync_apply veq (snd (async_to_sync_init g force)) cenv (parent # fst args, snd args)"
  by (auto simp: partial_first_argument [OF assms] sync_to_async_form_def async_to_sync_form_def sync_to_async_get_def async_to_sync_get_def
      sync_wrapper_init_settings sync_to_async_apply_def)

definition demo_function :: "(nat, nat) sync_function" where
  "demo_function = \<lparr>looks = \<lparr>is_callable = True, is_coroutine_function = False, directly_introspectable = True,
     call_is_coroutine_function = False\<rparr>, bound_self = None, run = (\<lambda>args exc th f. (Inr (sum_list (fst args)), f))\<rparr>"

definition demo_awaitable :: "(nat, nat) awaitable" where
  "demo_awaitable = \<lparr>looks = \<lparr>is_callable = True, is_coroutine_function = True, directly_introspectable = True,
     call_is_coroutine_function = False\<rparr>, bound_self = None, run = (\<lambda>args. Inr (\<lambda>lts exc f. (Inr 7, f)))\<rparr>"

theorem decorator_forms_agree_witness:
  "\<exists>w. sync_wrapper_init demo_function False None None = Inr w \<and>
     fst (run (sync_to_async_get (=) (demo_job id None) w 3) ([4], []) (demo_task [])) = Inr 7"
proof -
  let ?w = "\<lparr>wrapped = demo_function, sync_self = None, settings = demo_sync False\<rparr>"
  have w: "sync_wrapper_init demo_function False None None = Inr ?w"
    by (simp add: sync_wrapper_init_def sync_to_async_init_def demo_function_def demo_sync_def)
  have ok: "dict_ok (snd ([4::nat], []))" by simp
  have "run (sync_to_async_get (=) (demo_job id None) ?w 3) ([4], []) = sync_to_async_call (=) (settings ?w)
      ((demo_job id None)\<lparr>child := run demo_function (3 # [4], [])\<rparr>)"
    using decorator_forms_agree [OF ok, of demo_function False None None demo_awaitable False "(=)" "demo_job id None" 3]
      w by simp
  then have "fst (run (sync_to_async_get (=) (demo_job id None) ?w 3) ([4], []) (demo_task [])) = Inr 7"
    by (simp add: demo_function_def demo_sync_defs sync_call_defs)
  with w show ?thesis by blast
qed

text \<open>What may be wrapped in what. A \<open>sync_to_async\<close> wrapper, and the same accessed as a
  method, count as coroutine functions: \<open>async_to_sync\<close> takes them without a warning and
  \<open>sync_to_async\<close> refuses them with \<open>TypeError\<close>. An \<open>async_to_sync\<close> wrapper, and the same
  accessed as a method, count as plain functions: \<open>sync_to_async\<close> takes them, unless an executor is
  combined with thread sensitivity, and \<open>async_to_sync\<close> warns.\<close>

theorem wrappers_can_be_stacked:
  "L \<in> {looks (sync_to_async_object veq env w), looks (sync_to_async_get veq env w p)} \<Longrightarrow>
   M \<in> {looks (async_to_sync_object veq cenv v), looks (async_to_sync_get veq cenv v q)} \<Longrightarrow>
   \<not> async_to_sync_warns L \<and> sync_to_async_init L sensitive ex c = Inl TypeError \<and>
   async_to_sync_warns M \<and>
   ((\<exists>x. sync_to_async_init M sensitive ex c = Inr x) \<longleftrightarrow> \<not> (sensitive \<and> ex \<noteq> None))"
  by (auto simp: sync_to_async_object_def sync_to_async_get_def async_to_sync_object_def async_to_sync_get_def
      markcoroutinefunction_def instance_looks_def partial_looks_def async_to_sync_warns_def sync_to_async_init_def)

theorem wrappers_can_be_stacked_witness:
  "sync_to_async_init (looks (sync_to_async_object (=) (demo_job id None)
     \<lparr>wrapped = demo_function, sync_self = None, settings = demo_sync False\<rparr>)) True None None = Inl TypeError"
  by (rule wrappers_can_be_stacked [OF insertI1 insertI1, THEN conjunct2, THEN conjunct1])

end
