(* ===== verification/Local_Refinement.thy ===== *)
theory Local_Refinement
  imports Context_Restore
begin

text \<open>
  What \<open>Local\<close> promises, as an abstract machine: every context holds, for every \<open>Local\<close>, the
  thread that owns its data and a private map of attributes. The implementation, with shared
  memory, context copies that share dictionaries and \<open>_restore_context\<close> handing the same
  dictionary to another thread, refines it for every history of operations.
\<close>

section \<open>The implementation\<close>

text \<open>Each \<open>Local\<close> object has its own context variable; all of them have the same name.\<close>

definition lvar :: "nat \<Rightarrow> cvar" where
  "lvar n = ContextVar local_cvar_name n"

lemma lvar_simps [simp]: "cvar_name (lvar n) = local_cvar_name" "lvar n = lvar k \<longleftrightarrow> n = k"
  by (simp_all add: lvar_def)







section \<open>The specification\<close>




section \<open>Refinement\<close>















section \<open>Histories\<close>








end
