(* ===== verification/Critical_Refinement.thy ===== *)
theory Critical_Refinement
  imports Local_Refinement
begin

text \<open>
  What \<open>Local(thread_critical=True)\<close> promises, as an abstract machine: every thread has, for
  every such object, one map of attributes for its synchronous code and one for each context of its
  asynchronous code. The implementation, with one \<open>threading.local\<close> per object, a \<open>_CVar\<close> made on
  the first asynchronous access, and contexts that are copied and restored across threads, refines
  it; so no thread can observe what another one does.
\<close>

section \<open>The implementation\<close>

text \<open>
  \<open>slots_of w n t\<close> are the attributes of the \<open>threading.local\<close> of object \<open>n\<close> in thread
  \<open>t\<close>; memory, contexts and the numbering of variables are shared.
\<close>

record 'v critical_world =
  slots_of :: "nat \<Rightarrow> tid \<Rightarrow> (string, 'v slot) dict"
  cmem :: "'v mem"
  cctx :: "nat \<Rightarrow> 'v ctxt"
  next_id :: nat

text \<open>
  An access names the thread, whether a loop runs in it, its context, the object and the
  attribute.
\<close>

datatype 'v critical_call =
    CRead tid bool nat nat string | CAssign tid bool nat nat string 'v | CDelete tid bool nat nat string
  | CCopy nat nat | CRestore tid nat nat

definition object_at :: "tid \<Rightarrow> nat \<Rightarrow> nat \<Rightarrow> 'v critical_world \<Rightarrow> 'v local_state" where
  "object_at t c n w = \<lparr>critical = \<lparr>slots = slots_of w n t, tframe = \<lparr>mem = cmem w, ctx = cctx w c\<rparr>,
     fresh_id = next_id w\<rparr>, is_critical = True, var = lvar n\<rparr>"

definition put_object :: "tid \<Rightarrow> nat \<Rightarrow> nat \<Rightarrow> 'v critical \<Rightarrow> 'v critical_world \<Rightarrow> 'v critical_world" where
  "put_object t c n s w = \<lparr>slots_of = (slots_of w)(n := (slots_of w n)(t := slots s)), cmem = mem (tframe s),
     cctx = (cctx w)(c := ctx (tframe s)), next_id = fresh_id s\<rparr>"

fun critical_op :: "'v critical_call \<Rightarrow> 'v critical_world \<Rightarrow> ('v, 'v option) access \<times> 'v critical_world" where
  "critical_op (CRead t running c n k) w = (case getattr t running k (object_at t c n w) of
     (a, s) \<Rightarrow> (map_access id Some a, put_object t c n (critical s) w))"
| "critical_op (CAssign t running c n k v) w = (case setattr t running k v (object_at t c n w) of
     (a, s) \<Rightarrow> (map_access id (\<lambda>_. None) a, put_object t c n (critical s) w))"
| "critical_op (CDelete t running c n k) w = (case delattr t running k (object_at t c n w) of
     (a, s) \<Rightarrow> (map_access id (\<lambda>_. None) a, put_object t c n (critical s) w))"
| "critical_op (CCopy c d) w = (Result None, w\<lparr>cctx := (cctx w)(d := cctx w c)\<rparr>)"
| "critical_op (CRestore t c d) w = (case restore_context (=) t (cmem w) (cctx w c) (cctx w d) of
     (Inl e, cur) \<Rightarrow> (NoAttribute, w\<lparr>cctx := (cctx w)(d := cur)\<rparr>)
   | (Inr _, cur) \<Rightarrow> (Result None, w\<lparr>cctx := (cctx w)(d := cur)\<rparr>))"

text \<open>The names that are not used by the implementation itself.\<close>

definition public :: "string \<Rightarrow> bool" where
  "public k \<longleftrightarrow> k \<notin> set own_slots \<and> k \<noteq> ''cvar'' \<and> k \<noteq> ''_data''"

fun public_call :: "'v critical_call \<Rightarrow> bool" where
  "public_call (CRead t running c n k) = public k"
| "public_call (CAssign t running c n k v) = public k"
| "public_call (CDelete t running c n k) = public k"
| "public_call _ = True"

section \<open>The specification\<close>

record 'v confined =
  thread_data :: "nat \<Rightarrow> tid \<Rightarrow> string \<rightharpoonup> 'v"
  task_data :: "nat \<Rightarrow> nat \<Rightarrow> tid \<Rightarrow> (string \<rightharpoonup> 'v) option"

definition attributes :: "tid \<Rightarrow> bool \<Rightarrow> nat \<Rightarrow> nat \<Rightarrow> 'v confined \<Rightarrow> string \<rightharpoonup> 'v" where
  "attributes t running c n A = (if running
     then (case task_data A c n t of None \<Rightarrow> Map.empty | Some m \<Rightarrow> m) else thread_data A n t)"

definition with_attributes :: "tid \<Rightarrow> bool \<Rightarrow> nat \<Rightarrow> nat \<Rightarrow> (string \<rightharpoonup> 'v) \<Rightarrow> 'v confined \<Rightarrow> 'v confined" where
  "with_attributes t running c n m A = (if running
     then A\<lparr>task_data := (task_data A)(c := (task_data A c)(n := (task_data A c n)(t \<mapsto> m)))\<rparr>
     else A\<lparr>thread_data := (thread_data A)(n := (thread_data A n)(t := m))\<rparr>)"

fun confined_op :: "'v critical_call \<Rightarrow> 'v confined \<Rightarrow> ('v, 'v option) access \<times> 'v confined" where
  "confined_op (CRead t running c n k) A = (case attributes t running c n A k of
     None \<Rightarrow> (NoAttribute, A) | Some v \<Rightarrow> (Result (Some v), A))"
| "confined_op (CAssign t running c n k v) A =
     (Result None, with_attributes t running c n ((attributes t running c n A)(k \<mapsto> v)) A)"
| "confined_op (CDelete t running c n k) A = (case attributes t running c n A k of
     None \<Rightarrow> (NoAttribute, A)
   | Some _ \<Rightarrow> (Result None, with_attributes t running c n ((attributes t running c n A)(k := None)) A))"
| "confined_op (CCopy c d) A = (Result None, A\<lparr>task_data := (task_data A)(d := task_data A c)\<rparr>)"
| "confined_op (CRestore t c d) A = (Result None, A\<lparr>task_data := (task_data A)(d := (\<lambda>n u.
     case task_data A c n u of None \<Rightarrow> task_data A d n u | Some m \<Rightarrow> Some m))\<rparr>)"

section \<open>Refinement\<close>

definition cvar_of :: "'v critical_world \<Rightarrow> nat \<Rightarrow> tid \<Rightarrow> cvar option" where
  "cvar_of w n t = (case dict_get (slots_of w n t) ''cvar'' of Some (SCVar x) \<Rightarrow> Some x | _ \<Rightarrow> None)"

fun map_at :: "'v mem \<Rightarrow> 'v cval option \<Rightarrow> (string \<rightharpoonup> 'v) option" where
  "map_at m (Some (CDict a)) = Some (dict_get (dicts m a))"
| "map_at m _ = None"

definition confined_of :: "'v critical_world \<Rightarrow> 'v confined" where
  "confined_of w = \<lparr>thread_data = (\<lambda>n t k. case dict_get (slots_of w n t) k of Some (SUser v) \<Rightarrow> Some v | _ \<Rightarrow> None),
     task_data = (\<lambda>c n t. case cvar_of w n t of None \<Rightarrow> None | Some x \<Rightarrow> map_at (cmem w) (dict_get (cctx w c) x))\<rparr>"

definition cvar_ctxt :: "nat \<Rightarrow> 'v mem \<Rightarrow> 'v ctxt \<Rightarrow> bool" where
  "cvar_ctxt i m c \<longleftrightarrow> dict_ok c \<and> (\<forall>x v. dict_get c x = Some v \<longrightarrow>
     cvar_name x = critical_cvar_name \<and> cvar_id x < i \<and> (\<exists>a. v = CDict a \<and> a < next_addr m))"

fun slot_ok :: "nat \<Rightarrow> string \<Rightarrow> 'v slot \<Rightarrow> bool" where
  "slot_ok i k (SUser u) \<longleftrightarrow> k \<noteq> ''cvar''"
| "slot_ok i k (SCVar x) \<longleftrightarrow> k = ''cvar'' \<and> cvar_name x = critical_cvar_name \<and> cvar_id x < i"

definition slots_ok :: "nat \<Rightarrow> (string, 'v slot) dict \<Rightarrow> bool" where
  "slots_ok i d \<longleftrightarrow> dict_ok d \<and> (\<forall>k v. dict_get d k = Some v \<longrightarrow> slot_ok i k v)"

definition critical_world_ok :: "'v critical_world \<Rightarrow> bool" where
  "critical_world_ok w \<longleftrightarrow> (\<forall>a. dict_ok (dicts (cmem w) a)) \<and>
     (\<forall>n t. slots_ok (next_id w) (slots_of w n t)) \<and> (\<forall>c. cvar_ctxt (next_id w) (cmem w) (cctx w c)) \<and>
     (\<forall>n t j u x. cvar_of w n t = Some x \<longrightarrow> cvar_of w j u = Some x \<longrightarrow> n = j \<and> t = u)"


lemma slots_okD: "slots_ok i d \<Longrightarrow> dict_get d k = Some v \<Longrightarrow> slot_ok i k v"
  by (simp add: slots_ok_def)

lemma slot_ok_mono: "slot_ok i k v \<Longrightarrow> i \<le> j \<Longrightarrow> slot_ok j k v"
  by (cases v) auto

lemma world_slots: "critical_world_ok w \<Longrightarrow> slots_ok (next_id w) (slots_of w n t)"
  and world_ctxt: "critical_world_ok w \<Longrightarrow> cvar_ctxt (next_id w) (cmem w) (cctx w c)"
  and world_cvars: "critical_world_ok w \<Longrightarrow> cvar_of w n t = Some x \<Longrightarrow> cvar_of w j u = Some x \<Longrightarrow> n = j \<and> t = u"
  and world_dicts: "critical_world_ok w \<Longrightarrow> dict_ok (dicts (cmem w) a)"
  unfolding critical_world_ok_def by blast+

lemma put_object_same [simp]: "put_object t c n (critical (object_at t c n w)) w = w"
  by (simp add: put_object_def object_at_def)

lemma object_at_simps [simp]:
  "is_critical (object_at t c n w)" "slots (critical (object_at t c n w)) = slots_of w n t"
  "tframe (critical (object_at t c n w)) = \<lparr>mem = cmem w, ctx = cctx w c\<rparr>"
  "fresh_id (critical (object_at t c n w)) = next_id w"
  by (simp_all add: object_at_def)

lemma cvar_of_bound:
  assumes "critical_world_ok w" and "cvar_of w n t = Some x"
  shows "cvar_name x = critical_cvar_name \<and> cvar_id x < next_id w"
proof -
  from assms(2) have "dict_get (slots_of w n t) ''cvar'' = Some (SCVar x)"
    by (simp add: cvar_of_def split: option.splits slot.splits)
  with slots_okD [OF world_slots [OF assms(1)]] show ?thesis by fastforce
qed

lemma slots_ok_mono: "slots_ok i d \<Longrightarrow> i \<le> j \<Longrightarrow> slots_ok j d"
  using slot_ok_mono by (fastforce simp: slots_ok_def)

lemma cvar_ctxt_mono: "cvar_ctxt i m c \<Longrightarrow> i \<le> j \<Longrightarrow> next_addr m \<le> next_addr m' \<Longrightarrow> cvar_ctxt j m' c"
  by (fastforce simp: cvar_ctxt_def)

lemma cvar_ctxtD:
  "cvar_ctxt i m c \<Longrightarrow> dict_get c x = Some v \<Longrightarrow>
   cvar_name x = critical_cvar_name \<and> cvar_id x < i \<and> (\<exists>a. v = CDict a \<and> a < next_addr m)"
  by (simp add: cvar_ctxt_def)

text \<open>Synchronous code: only the slots of one thread change.\<close>

lemma slots_refine:
  assumes ok: "critical_world_ok w" and d: "slots_ok (next_id w) d"
    and same: "dict_get d ''cvar'' = dict_get (slots_of w n t) ''cvar''"
  shows "critical_world_ok (w\<lparr>slots_of := (slots_of w)(n := (slots_of w n)(t := d))\<rparr>) \<and>
    confined_of (w\<lparr>slots_of := (slots_of w)(n := (slots_of w n)(t := d))\<rparr>) =
      with_attributes t False c n (\<lambda>k. case dict_get d k of Some (SUser v) \<Rightarrow> Some v | _ \<Rightarrow> None) (confined_of w)"
proof -
  obtain u where u: "u = w\<lparr>slots_of := (slots_of w)(n := (slots_of w n)(t := d))\<rparr>" by simp
  have at: "slots_of u = (slots_of w)(n := (slots_of w n)(t := d))" "cmem u = cmem w" "cctx u = cctx w"
    "next_id u = next_id w" by (simp_all add: u)
  have cv: "cvar_of u = cvar_of w" using same by (auto simp: cvar_of_def at fun_eq_iff)
  have "critical_world_ok u" using ok d unfolding critical_world_ok_def cv at by simp
  moreover have "task_data (confined_of u) = task_data (confined_of w)"
    by (auto simp: confined_of_def cv at fun_eq_iff split: option.split)
  then have "confined_of u =
      with_attributes t False c n (\<lambda>k. case dict_get d k of Some (SUser v) \<Rightarrow> Some v | _ \<Rightarrow> None) (confined_of w)"
    by (intro confined.equality) (simp_all add: with_attributes_def, simp add: confined_of_def at fun_eq_iff)
  ultimately show ?thesis unfolding u ..
qed

text \<open>Asynchronous code: the storage is a variable of this thread, made on the first access.\<close>

lemma storage_refine:
  assumes ok: "critical_world_ok w"
  shows "\<exists>x u. thread_critical_storage True (critical (object_at t c n w)) = (Async x, critical (object_at t c n u)) \<and>
    critical_world_ok u \<and> confined_of u = confined_of w \<and> cvar_of u n t = Some x \<and>
    (\<forall>s. put_object t c n s u = put_object t c n s w)"
proof (cases "dict_get (slots_of w n t) ''cvar''")
  case (Some a)
  from slots_okD [OF world_slots [OF ok] Some] obtain x where "a = SCVar x" by (cases a) auto
  with Some ok show ?thesis
    by (intro exI [of _ x] exI [of _ w]) (simp add: thread_critical_storage_def cvar_of_def)
next
  case None
  let ?x = "ContextVar critical_cvar_name (next_id w)"
  let ?d = "dict_set ''cvar'' (SCVar ?x) (slots_of w n t)"
  obtain u where u: "u = w\<lparr>slots_of := (slots_of w)(n := (slots_of w n)(t := ?d)), next_id := Suc (next_id w)\<rparr>"
    by simp
  have at: "slots_of u = (slots_of w)(n := (slots_of w n)(t := ?d))" "cmem u = cmem w" "cctx u = cctx w"
    "next_id u = Suc (next_id w)" by (simp_all add: u)
  have cv: "cvar_of u j s = (if j = n \<and> s = t then Some ?x else cvar_of w j s)" for j s
    by (simp add: cvar_of_def at)
  have gone: "dict_get (cctx w e) ?x = None" for e
    using cvar_ctxtD [OF world_ctxt [OF ok], of e ?x] by (cases "dict_get (cctx w e) ?x") auto
  have fresh: "cvar_of w j s \<noteq> Some ?x" for j s
    using cvar_of_bound [OF ok, of j s] by fastforce
  have slots: "slots_ok (Suc (next_id w)) (slots_of w j s)" for j s
    by (rule slots_ok_mono [OF world_slots [OF ok]]) simp
  moreover have "slots_ok (Suc (next_id w)) ?d"
    using slots [of n t] by (auto simp: slots_ok_def)
  moreover have "cvar_ctxt (Suc (next_id w)) (cmem w) (cctx w e)" for e
    by (rule cvar_ctxt_mono [OF world_ctxt [OF ok]]) simp_all
  moreover have "i = j \<and> r = s" if "cvar_of u i r = Some y" "cvar_of u j s = Some y" for i r j s y
    using that fresh world_cvars [OF ok, of i r y j s] unfolding cv by (auto split: if_splits)
  ultimately have "critical_world_ok u" using ok unfolding critical_world_ok_def at by simp
  moreover have "confined_of u = confined_of w"
  proof (rule confined.equality)
    have "cvar_of w n t = None" using None by (simp add: cvar_of_def)
    with gone show "task_data (confined_of u) = task_data (confined_of w)"
      by (auto simp: confined_of_def cv at fun_eq_iff split: option.split)
    show "thread_data (confined_of u) = thread_data (confined_of w)"
      using None by (auto simp: confined_of_def at fun_eq_iff)
  qed simp
  moreover have "thread_critical_storage True (critical (object_at t c n w)) = (Async ?x, critical (object_at t c n u))"
    using None by (simp add: thread_critical_storage_def object_at_def Let_def at)
  moreover have "put_object t c n s u = put_object t c n s w" for s
    by (simp add: put_object_def at)
  ultimately show ?thesis using cv by (intro exI [of _ ?x] exI [of _ u]) simp
qed

lemma cv_data_refines:
  assumes "critical_world_ok w" and "cvar_of w n t = Some x"
  shows "dict_get (cv_data x \<lparr>mem = cmem w, ctx = cctx w c\<rparr>) = attributes t True c n (confined_of w)"
    "dict_ok (cv_data x \<lparr>mem = cmem w, ctx = cctx w c\<rparr>)"
proof -
  have "cvar_ctxt (next_id w) (cmem w) (cctx w c)" using assms(1) by (simp add: critical_world_ok_def)
  then have "\<exists>a. v = CDict a" if "dict_get (cctx w c) x = Some v" for v
    using cvar_ctxtD that by blast
  then show "dict_get (cv_data x \<lparr>mem = cmem w, ctx = cctx w c\<rparr>) = attributes t True c n (confined_of w)"
    using assms(2) by (cases "dict_get (cctx w c) x") (auto simp: cv_data_def attributes_def confined_of_def)
  show "dict_ok (cv_data x \<lparr>mem = cmem w, ctx = cctx w c\<rparr>)"
    using assms(1) by (auto simp: cv_data_def critical_world_ok_def split: option.splits cval.splits)
qed

lemma cv_publish_refines:
  assumes ok: "critical_world_ok w" and x: "cvar_of w n t = Some x" and d: "dict_ok d"
  shows "critical_world_ok (put_object t c n (critical (object_at t c n w)\<lparr>tframe :=
        cv_publish x d \<lparr>mem = cmem w, ctx = cctx w c\<rparr>\<rparr>) w) \<and>
    confined_of (put_object t c n (critical (object_at t c n w)\<lparr>tframe :=
        cv_publish x d \<lparr>mem = cmem w, ctx = cctx w c\<rparr>\<rparr>) w) = with_attributes t True c n (dict_get d) (confined_of w)"
proof -
  let ?a = "next_addr (cmem w)"
  let ?m = "(cmem w)\<lparr>dicts := (dicts (cmem w))(?a := d), next_addr := Suc ?a\<rparr>"
  let ?c = "dict_set x (CDict ?a) (cctx w c)"
  obtain u where u: "u = put_object t c n (critical (object_at t c n w)\<lparr>tframe :=
      cv_publish x d \<lparr>mem = cmem w, ctx = cctx w c\<rparr>\<rparr>) w" by simp
  have at: "slots_of u = slots_of w" "cmem u = ?m" "cctx u = (cctx w)(c := ?c)" "next_id u = next_id w"
    by (simp_all add: u put_object_def cv_publish_def new_dict_def)
  have cv: "cvar_of u = cvar_of w" by (simp add: fun_eq_iff cvar_of_def at)
  have later: "cvar_ctxt (next_id w) ?m (cctx w e)" for e
    by (rule cvar_ctxt_mono [of "next_id w" "cmem w"]) (use ok in \<open>simp_all add: critical_world_ok_def\<close>)
  moreover have "cvar_ctxt (next_id w) ?m ?c"
    using later [of c] cvar_of_bound [OF ok x] by (auto simp: cvar_ctxt_def)
  ultimately have "critical_world_ok u"
    using ok d unfolding critical_world_ok_def at cv by simp
  moreover have "confined_of u = with_attributes t True c n (dict_get d) (confined_of w)"
  proof -
    have old: "map_at ?m (dict_get (cctx w e) y) = map_at (cmem w) (dict_get (cctx w e) y)" for e y
    proof (cases "dict_get (cctx w e) y")
      case (Some v)
      moreover have "cvar_ctxt (next_id w) (cmem w) (cctx w e)" using ok by (simp add: critical_world_ok_def)
      ultimately obtain a where "v = CDict a" "a < ?a" using cvar_ctxtD by blast
      with Some show ?thesis by simp
    qed simp
    have other: "y \<noteq> x" if "cvar_of w j s = Some y" "j \<noteq> n \<or> s \<noteq> t" for j s y
      using that ok x unfolding critical_world_ok_def by blast
    have "task_data (confined_of u) e j s = task_data (with_attributes t True c n (dict_get d) (confined_of w)) e j s"
      for e j s
    proof (cases "j = n \<and> s = t")
      case True
      with x old show ?thesis by (simp add: confined_of_def cv at with_attributes_def)
    next
      case False
      with other [of j s] old show ?thesis
        by (auto simp: confined_of_def cv at with_attributes_def split: option.splits)
    qed
    then have "task_data (confined_of u) = task_data (with_attributes t True c n (dict_get d) (confined_of w))"
      by (simp add: fun_eq_iff)
    moreover have "thread_data (confined_of u) = thread_data (with_attributes t True c n (dict_get d) (confined_of w))"
      by (simp add: confined_of_def at with_attributes_def)
    ultimately show ?thesis by (simp add: confined.equality)
  qed
  ultimately show ?thesis unfolding u by simp
qed

text \<open>The synchronous attributes of an object are the user values among its slots.\<close>

lemma slot_refines:
  assumes "critical_world_ok w" and "public k"
  shows "dict_get (slots_of w n t) k = map_option SUser (attributes t False c n (confined_of w) k)"
  using slots_okD [OF world_slots [OF assms(1)], of n t k] assms(2)
  by (cases "dict_get (slots_of w n t) k"; cases "the (dict_get (slots_of w n t) k)")
    (auto simp: attributes_def confined_of_def public_def)

lemma slots_set_refines:
  assumes "critical_world_ok w" and "public k"
  shows "critical_world_ok (put_object t c n (critical (object_at t c n w)\<lparr>slots := dict_set k (SUser v) (slots_of w n t)\<rparr>) w) \<and>
    confined_of (put_object t c n (critical (object_at t c n w)\<lparr>slots := dict_set k (SUser v) (slots_of w n t)\<rparr>) w) =
      with_attributes t False c n ((attributes t False c n (confined_of w))(k \<mapsto> v)) (confined_of w)"
proof -
  let ?d = "dict_set k (SUser v) (slots_of w n t)"
  have "slots_ok (next_id w) ?d" using world_slots [OF assms(1), of n t] assms(2) by (auto simp: slots_ok_def public_def)
  moreover have "dict_get ?d ''cvar'' = dict_get (slots_of w n t) ''cvar''" using assms(2) by (auto simp: public_def)
  moreover have "(\<lambda>j. case dict_get ?d j of Some (SUser u) \<Rightarrow> Some u | _ \<Rightarrow> None) =
      (attributes t False c n (confined_of w))(k \<mapsto> v)"
    by (auto simp: attributes_def confined_of_def fun_eq_iff)
  moreover have "put_object t c n (critical (object_at t c n w)\<lparr>slots := ?d\<rparr>) w =
      w\<lparr>slots_of := (slots_of w)(n := (slots_of w n)(t := ?d))\<rparr>"
    by (simp add: put_object_def object_at_def)
  ultimately show ?thesis using slots_refine [OF assms(1), of ?d n t c] by simp
qed

lemma slots_del_refines:
  assumes "critical_world_ok w" and "public k"
  shows "critical_world_ok (put_object t c n (critical (object_at t c n w)\<lparr>slots := dict_del k (slots_of w n t)\<rparr>) w) \<and>
    confined_of (put_object t c n (critical (object_at t c n w)\<lparr>slots := dict_del k (slots_of w n t)\<rparr>) w) =
      with_attributes t False c n ((attributes t False c n (confined_of w))(k := None)) (confined_of w)"
proof -
  let ?d = "dict_del k (slots_of w n t)"
  have "slots_ok (next_id w) ?d" using world_slots [OF assms(1), of n t] by (auto simp: slots_ok_def)
  moreover have "dict_get ?d ''cvar'' = dict_get (slots_of w n t) ''cvar''" using assms(2) by (auto simp: public_def)
  moreover have "(\<lambda>j. case dict_get ?d j of Some (SUser u) \<Rightarrow> Some u | _ \<Rightarrow> None) =
      (attributes t False c n (confined_of w))(k := None)"
    by (auto simp: attributes_def confined_of_def fun_eq_iff)
  moreover have "put_object t c n (critical (object_at t c n w)\<lparr>slots := ?d\<rparr>) w =
      w\<lparr>slots_of := (slots_of w)(n := (slots_of w n)(t := ?d))\<rparr>"
    by (simp add: put_object_def object_at_def)
  ultimately show ?thesis using slots_refine [OF assms(1), of ?d n t c] by simp
qed

section \<open>Each operation\<close>

lemma read_refines:
  assumes ok: "critical_world_ok w" and k: "public k" and call: "critical_op (CRead t running c n k) w = (r, w')"
  shows "critical_world_ok w' \<and> confined_op (CRead t running c n k) (confined_of w) = (r, confined_of w')"
proof (cases running)
  case False
  from slot_refines [OF ok k, of n t c] call False ok show ?thesis
    by (cases "attributes t False c n (confined_of w) k")
      (auto simp: getattr_def critical_getattr_def thread_critical_storage_def)
next
  case True
  obtain x u where st: "thread_critical_storage True (critical (object_at t c n w)) = (Async x, critical (object_at t c n u))"
    and u: "critical_world_ok u" "confined_of u = confined_of w" "cvar_of u n t = Some x"
    and put: "\<And>s. put_object t c n s u = put_object t c n s w" using storage_refine [OF ok, of t c n] by blast
  have "put_object t c n (critical (object_at t c n u)) w = u" by (simp add: put [symmetric])
  with cv_data_refines(1) [OF u(1,3), of c] call True st k u(1,2) show ?thesis
    by (cases "attributes t True c n (confined_of w) k")
      (auto simp: getattr_def critical_getattr_def cv_getattr_def public_def)
qed

lemma assign_refines:
  assumes ok: "critical_world_ok w" and k: "public k" and call: "critical_op (CAssign t running c n k v) w = (r, w')"
  shows "critical_world_ok w' \<and> confined_op (CAssign t running c n k v) (confined_of w) = (r, confined_of w')"
proof (cases running)
  case False
  with call k have "w' = put_object t c n (critical (object_at t c n w)\<lparr>slots := dict_set k (SUser v) (slots_of w n t)\<rparr>) w"
    "r = Result None"
    by (auto simp: setattr_def critical_setattr_def thread_critical_storage_def public_def)
  with slots_set_refines [OF ok k, of t c n v] False show ?thesis by simp
next
  case True
  obtain x u where st: "thread_critical_storage True (critical (object_at t c n w)) = (Async x, critical (object_at t c n u))"
    and u: "critical_world_ok u" "confined_of u = confined_of w" "cvar_of u n t = Some x"
    and put: "\<And>s. put_object t c n s u = put_object t c n s w" using storage_refine [OF ok, of t c n] by blast
  let ?f = "\<lparr>mem = cmem u, ctx = cctx u c\<rparr>"
  from call True st k have "w' = put_object t c n (critical (object_at t c n u)\<lparr>tframe :=
      cv_publish x (dict_set k v (cv_data x ?f)) ?f\<rparr>) u" "r = Result None"
    by (auto simp: setattr_def critical_setattr_def cv_setattr_def public_def put)
  with cv_publish_refines [OF u(1,3) dict_ok_set [OF cv_data_refines(2) [OF u(1,3)]], of c k v c]
    cv_data_refines(1) [OF u(1,3), of c] u(2) True show ?thesis by simp
qed

lemma delete_refines:
  assumes ok: "critical_world_ok w" and k: "public k" and call: "critical_op (CDelete t running c n k) w = (r, w')"
  shows "critical_world_ok w' \<and> confined_op (CDelete t running c n k) (confined_of w) = (r, confined_of w')"
proof (cases running)
  case False
  show ?thesis
  proof (cases "attributes t False c n (confined_of w) k")
    case None
    with slot_refines [OF ok k, of n t c] call False ok show ?thesis
      by (auto simp: delattr_def critical_delattr_def thread_critical_storage_def dict_keys_iff)
  next
    case (Some v)
    with slot_refines [OF ok k, of n t c] call False
    have "w' = put_object t c n (critical (object_at t c n w)\<lparr>slots := dict_del k (slots_of w n t)\<rparr>) w"
      "r = Result None"
      by (auto simp: delattr_def critical_delattr_def thread_critical_storage_def dict_keys_iff)
    with slots_del_refines [OF ok k, of t c n] False Some show ?thesis by simp
  qed
next
  case True
  obtain x u where st: "thread_critical_storage True (critical (object_at t c n w)) = (Async x, critical (object_at t c n u))"
    and u: "critical_world_ok u" "confined_of u = confined_of w" "cvar_of u n t = Some x"
    and put: "\<And>s. put_object t c n s u = put_object t c n s w" using storage_refine [OF ok, of t c n] by blast
  let ?f = "\<lparr>mem = cmem u, ctx = cctx u c\<rparr>"
  note data = cv_data_refines(1) [OF u(1,3), of c]
  show ?thesis
  proof (cases "attributes t True c n (confined_of w) k")
    case None
    have "put_object t c n (critical (object_at t c n u)) w = u" by (simp add: put [symmetric])
    with None data call True st u(1,2) show ?thesis
      by (auto simp: delattr_def critical_delattr_def cv_delattr_def dict_keys_iff)
  next
    case (Some v)
    with data call True st u(2) have "w' = put_object t c n (critical (object_at t c n u)\<lparr>tframe :=
        cv_publish x (dict_del k (cv_data x ?f)) ?f\<rparr>) u" "r = Result None"
      by (auto simp: delattr_def critical_delattr_def cv_delattr_def dict_keys_iff put)
    with cv_publish_refines [OF u(1,3) dict_ok_del [OF cv_data_refines(2) [OF u(1,3)]], of c k c]
      data u(2) True Some show ?thesis by simp
  qed
qed

lemma cvar_ctxt_movable: "cvar_ctxt i m c \<Longrightarrow> movable c"
proof -
  assume c: "cvar_ctxt i m c"
  show "movable c" unfolding movable_def list_all_iff
  proof (intro ballI, clarify)
    fix x v assume "(x, v) \<in> set c"
    then have "dict_get c x = Some v" using c by (simp add: cvar_ctxt_def dict_ok_def)
    from cvar_ctxtD [OF c this]
    show "case v of CTuple st \<Rightarrow> cvar_name x = local_cvar_name \<longrightarrow> 2 \<le> length st | _ \<Rightarrow> True" by auto
  qed
qed

lemma look_eq_same: "look_eq (=) f g \<longleftrightarrow> f = g"
proof
  assume look: "look_eq (=) f g"
  show "f = g"
  proof
    fix k
    from look have "entry_eq (=) (f k) (g k)" by (simp add: look_eq_def)
    then show "f k = g k" by (cases "f k"; cases "g k") auto
  qed
qed (simp add: look_eq_refl)

text \<open>What a comparison keeps in place of the new dictionary has the same entries.\<close>

lemma settled_map:
  assumes "\<forall>b. dict_ok (dicts m b)" and "cvar_ctxt i m c" and "a < next_addr m"
  shows "\<exists>b. settled (=) m (dict_get c x) (CDict a) = CDict b \<and> b < next_addr m \<and>
    dict_get (dicts m b) = dict_get (dicts m a)"
proof (cases "dict_get c x")
  case None
  with assms(3) show ?thesis by (simp add: settled_def)
next
  case (Some v)
  with cvar_ctxtD [OF assms(2) Some] obtain b where b: "v = CDict b" "b < next_addr m" by blast
  show ?thesis
  proof (cases "dict_eq (=) (dicts m b) (dicts m a)")
    case True
    with dict_eq_look [OF True] assms(1) have "dict_get (dicts m b) = dict_get (dicts m a)"
      by (simp add: look_eq_same)
    with Some b True show ?thesis by (simp add: settled_def)
  next
    case False
    with Some b assms(3) show ?thesis by (simp add: settled_def)
  qed
qed

lemma restored_ctxt:
  assumes ok: "critical_world_ok w"
  shows "\<exists>cur. restore_context (=) t (cmem w) (cctx w c) (cctx w d) = (Inr (), cur) \<and>
    cvar_ctxt (next_id w) (cmem w) cur \<and> (\<forall>x. map_at (cmem w) (dict_get cur x) =
      (case map_at (cmem w) (dict_get (cctx w c) x) of None \<Rightarrow> map_at (cmem w) (dict_get (cctx w d) x) | Some m \<Rightarrow> Some m))"
proof -
  note src = world_ctxt [OF ok, of c] and dst = world_ctxt [OF ok, of d]
  have ok_src: "dict_ok (cctx w c)" and ok_dst: "dict_ok (cctx w d)" using src dst by (simp_all add: cvar_ctxt_def)
  obtain cur where cur: "restore_context (=) t (cmem w) (cctx w c) (cctx w d) = (Inr (), cur)" "dict_ok cur"
    "dict_get cur = (\<lambda>x. case dict_get (cctx w c) x of None \<Rightarrow> dict_get (cctx w d) x
      | Some v \<Rightarrow> Some (settled (=) (cmem w) (dict_get (cctx w d) x) (moved t x v)))"
    using restore_context_get [OF cvar_ctxt_movable [OF src] ok_src, of "(=)" t "cmem w" "cctx w d"] ok_dst by blast
  have dicts: "\<forall>b. dict_ok (dicts (cmem w) b)" using world_dicts [OF ok] by blast
  have new: "\<exists>b. dict_get cur x = Some (CDict b) \<and> b < next_addr (cmem w) \<and>
      map_at (cmem w) (Some (CDict b)) = map_at (cmem w) (Some v) \<and>
      cvar_name x = critical_cvar_name \<and> cvar_id x < next_id w"
    if v: "dict_get (cctx w c) x = Some v" for x v
  proof -
    from cvar_ctxtD [OF src v] obtain a where a: "v = CDict a" "a < next_addr (cmem w)"
      "cvar_name x = critical_cvar_name" "cvar_id x < next_id w" by blast
    then have "moved t x v = CDict a" by (simp add: critical_cvar_name_def local_cvar_name_def)
    with settled_map [OF dicts dst a(2), of x] a v show ?thesis by (auto simp: cur(3))
  qed
  have old: "dict_get cur x = dict_get (cctx w d) x" if "dict_get (cctx w c) x = None" for x
    using that by (simp add: cur(3))
  have "cvar_ctxt (next_id w) (cmem w) cur" unfolding cvar_ctxt_def
  proof (intro conjI allI impI, rule cur(2))
    fix x v assume v: "dict_get cur x = Some v"
    have "cvar_name x = critical_cvar_name \<and> cvar_id x < next_id w \<and> (\<exists>a. v = CDict a \<and> a < next_addr (cmem w))"
    proof (cases "dict_get (cctx w c) x")
      case None
      with old v cvar_ctxtD [OF dst, of x v] show ?thesis by simp
    next
      case (Some u)
      with new [OF Some] v show ?thesis by auto
    qed
    then show "cvar_name x = critical_cvar_name" "cvar_id x < next_id w" "\<exists>a. v = CDict a \<and> a < next_addr (cmem w)"
      by blast+
  qed
  moreover have "map_at (cmem w) (dict_get cur x) = (case map_at (cmem w) (dict_get (cctx w c) x) of
      None \<Rightarrow> map_at (cmem w) (dict_get (cctx w d) x) | Some m \<Rightarrow> Some m)" for x
  proof (cases "dict_get (cctx w c) x")
    case None
    then show ?thesis by (simp add: old)
  next
    case (Some v)
    with cvar_ctxtD [OF src Some] obtain a where "v = CDict a" by blast
    with new [OF Some] Some show ?thesis by auto
  qed
  ultimately show ?thesis using cur(1) by blast
qed

lemma critical_op_refines:
  assumes ok: "critical_world_ok w" and "public_call oper" and "critical_op oper w = (r, w')"
  shows "critical_world_ok w' \<and> confined_op oper (confined_of w) = (r, confined_of w')"
proof (cases oper)
  case (CCopy c d)
  with assms(3) have w': "w' = w\<lparr>cctx := (cctx w)(d := cctx w c)\<rparr>" "r = Result None" by simp_all
  have at: "slots_of w' = slots_of w" "cmem w' = cmem w" "next_id w' = next_id w" "cctx w' = (cctx w)(d := cctx w c)"
    by (simp_all add: w')
  have cv: "cvar_of w' = cvar_of w" by (simp add: cvar_of_def at fun_eq_iff)
  have "critical_world_ok w'" using ok unfolding critical_world_ok_def cv at by simp
  with CCopy w'(2) show ?thesis by (auto simp: confined_of_def cv at fun_eq_iff split: option.split)
next
  case (CRestore t c d)
  from restored_ctxt [OF ok, of t c d] obtain cur where
    cur: "restore_context (=) t (cmem w) (cctx w c) (cctx w d) = (Inr (), cur)"
      "cvar_ctxt (next_id w) (cmem w) cur" "\<And>x. map_at (cmem w) (dict_get cur x) =
      (case map_at (cmem w) (dict_get (cctx w c) x) of None \<Rightarrow> map_at (cmem w) (dict_get (cctx w d) x) | Some m \<Rightarrow> Some m)"
    by blast
  with CRestore assms(3) have w': "w' = w\<lparr>cctx := (cctx w)(d := cur)\<rparr>" "r = Result None" by simp_all
  have at: "slots_of w' = slots_of w" "cmem w' = cmem w" "next_id w' = next_id w" "cctx w' = (cctx w)(d := cur)"
    by (simp_all add: w')
  have cv: "cvar_of w' = cvar_of w" by (simp add: cvar_of_def at fun_eq_iff)
  have "critical_world_ok w'" using ok cur(2) unfolding critical_world_ok_def cv at by simp
  with CRestore w'(2) show ?thesis by (auto simp: confined_of_def cv at cur(3) fun_eq_iff split: option.split)
next
  case (CRead t running c n k)
  with assms show ?thesis by (metis public_call.simps(1) read_refines)
next
  case (CAssign t running c n k v)
  with assms show ?thesis by (metis public_call.simps(2) assign_refines)
next
  case (CDelete t running c n k)
  with assms show ?thesis by (metis public_call.simps(3) delete_refines)
qed

section \<open>Histories\<close>

fun critical_history :: "'v critical_call list \<Rightarrow> 'v critical_world \<Rightarrow> ('v, 'v option) access list \<times> 'v critical_world" where
  "critical_history [] w = ([], w)"
| "critical_history (p # ps) w = (case critical_op p w of (r, w') \<Rightarrow>
     (case critical_history ps w' of (rs, w'') \<Rightarrow> (r # rs, w'')))"

fun confined_history :: "'v critical_call list \<Rightarrow> 'v confined \<Rightarrow> ('v, 'v option) access list \<times> 'v confined" where
  "confined_history [] A = ([], A)"
| "confined_history (p # ps) A = (case confined_op p A of (r, B) \<Rightarrow>
     (case confined_history ps B of (rs, C) \<Rightarrow> (r # rs, C)))"

definition new_critical :: "'v critical_world" where
  "new_critical = \<lparr>slots_of = (\<lambda>_ _. []), cmem = \<lparr>dicts = (\<lambda>_. []), next_addr = 0\<rparr>, cctx = (\<lambda>_. []), next_id = 0\<rparr>"

definition nothing_stored :: "'v confined" where
  "nothing_stored = \<lparr>thread_data = (\<lambda>_ _. Map.empty), task_data = (\<lambda>_ _ _. None)\<rparr>"

lemma new_critical_ok:
  "critical_world_ok (new_critical :: 'v critical_world)" "confined_of (new_critical :: 'v critical_world) = nothing_stored"
  by (simp_all add: critical_world_ok_def new_critical_def slots_ok_def cvar_ctxt_def cvar_of_def confined_of_def
      nothing_stored_def)

lemma critical_history_refines:
  "critical_world_ok w \<Longrightarrow> list_all public_call ps \<Longrightarrow> critical_history ps w = (rs, w') \<Longrightarrow>
   confined_history ps (confined_of w) = (rs, confined_of w')"
proof (induction ps arbitrary: w rs)
  case (Cons p ps)
  obtain r w1 where one: "critical_op p w = (r, w1)" by fastforce
  obtain rs1 w2 where rest: "critical_history ps w1 = (rs1, w2)" by fastforce
  have "public_call p" "list_all public_call ps" using Cons.prems(2) by simp_all
  note step = critical_op_refines [OF Cons.prems(1) this(1) one] and more = this(2)
  from Cons.prems(3) one rest have "rs = r # rs1" "w' = w2" by simp_all
  with Cons.IH [of w1 rs1] step more rest show ?case by simp
qed simp


section \<open>Confinement\<close>

text \<open>
  The accesses of one thread, and a history without the accesses of the other threads (context
  copies and restores stay).
\<close>

fun access_by :: "'v critical_call \<Rightarrow> tid option" where
  "access_by (CRead t running c n k) = Some t"
| "access_by (CAssign t running c n k v) = Some t"
| "access_by (CDelete t running c n k) = Some t"
| "access_by _ = None"

definition without_others :: "tid \<Rightarrow> 'v critical_call list \<Rightarrow> 'v critical_call list" where
  "without_others t ps = filter (\<lambda>p. access_by p = Some t \<or> access_by p = None) ps"

fun results_of :: "tid \<Rightarrow> 'v critical_call list \<Rightarrow> 'r list \<Rightarrow> 'r list" where
  "results_of t (p # ps) (r # rs) = (if access_by p = Some t then r # results_of t ps rs else results_of t ps rs)"
| "results_of t _ _ = []"

definition same_for :: "tid \<Rightarrow> 'v confined \<Rightarrow> 'v confined \<Rightarrow> bool" where
  "same_for t A B \<longleftrightarrow> (\<forall>n. thread_data A n t = thread_data B n t) \<and> (\<forall>c n. task_data A c n t = task_data B c n t)"

lemma same_for_attributes: "same_for t A B \<Longrightarrow> attributes t running c n A = attributes t running c n B"
  by (simp add: same_for_def attributes_def)

lemma same_for_with:
  "same_for t A B \<Longrightarrow> same_for t (with_attributes t running c n m A) (with_attributes t running c n m B)"
  by (simp add: same_for_def with_attributes_def)

lemma same_for_other: "u \<noteq> t \<Longrightarrow> same_for t (with_attributes u running c n m A) A"
  by (simp add: same_for_def with_attributes_def)

lemma own_step:
  assumes "same_for t A B" and "access_by p = Some t \<or> access_by p = None"
  shows "fst (confined_op p A) = fst (confined_op p B) \<and> same_for t (snd (confined_op p A)) (snd (confined_op p B))"
proof (cases p)
  case (CRead u running c n k)
  with assms same_for_attributes [OF assms(1), of running c n] show ?thesis by (simp split: option.split)
next
  case (CAssign u running c n k v)
  with assms same_for_attributes [OF assms(1), of running c n] same_for_with [OF assms(1)] show ?thesis by simp
next
  case (CDelete u running c n k)
  with assms same_for_attributes [OF assms(1), of running c n] same_for_with [OF assms(1)] show ?thesis
    by (simp split: option.split)
qed (use assms(1) in \<open>simp_all add: same_for_def split: option.split\<close>)

lemma other_step:
  assumes "access_by p = Some u" and "u \<noteq> t"
  shows "same_for t (snd (confined_op p A)) A"
proof -
  have "same_for t A A" by (simp add: same_for_def)
  with assms same_for_other [OF assms(2), of _ _ _ _ A] show ?thesis by (cases p) (auto split: option.split)
qed

lemma same_for_trans: "same_for t A B \<Longrightarrow> same_for t B C \<Longrightarrow> same_for t A C"
  by (simp add: same_for_def)

lemma confined_history_Cons: "fst (confined_history (p # ps) A) =
    fst (confined_op p A) # fst (confined_history ps (snd (confined_op p A)))"
  by (simp split: prod.split)

lemma confinement:
  "same_for t A B \<Longrightarrow> results_of t ps (fst (confined_history ps A)) =
    results_of t (without_others t ps) (fst (confined_history (without_others t ps) B))"
proof (induction ps arbitrary: A B)
  case (Cons p ps)
  show ?case
  proof (cases "access_by p = Some t \<or> access_by p = None")
    case True
    note step = own_step [OF Cons.prems True]
    have "without_others t (p # ps) = p # without_others t ps" using True by (simp add: without_others_def)
    with Cons.IH [OF conjunct2 [OF step]] conjunct1 [OF step] show ?thesis
      by (simp add: confined_history_Cons del: confined_history.simps)
  next
    case False
    then obtain u where u: "access_by p = Some u" "u \<noteq> t" by auto
    then have "without_others t (p # ps) = without_others t ps" by (simp add: without_others_def)
    with Cons.IH [OF same_for_trans [OF other_step [OF u] Cons.prems]] u show ?thesis
      by (simp add: confined_history_Cons del: confined_history.simps)
  qed
qed (simp add: without_others_def)

text \<open>C15: thread-critical data never leaves its thread. In every history, whatever the other threads
  read, assign and delete, on the same objects and in the same contexts, and however contexts
  are copied and restored between threads: the results of a thread's accesses are those of the history
  from which all accesses of the other threads have been removed.\<close>

theorem thread_critical_data_is_confined:
  assumes "list_all public_call ps"
  shows "results_of t ps (fst (critical_history ps new_critical)) =
    results_of t (without_others t ps) (fst (critical_history (without_others t ps) new_critical))"
proof -
  have "list_all public_call (without_others t ps)"
    using assms by (auto simp: without_others_def list_all_iff)
  note both = critical_history_refines [OF new_critical_ok(1) assms prod.collapse [symmetric]]
    critical_history_refines [OF new_critical_ok(1) this prod.collapse [symmetric]]
  have "same_for t nothing_stored nothing_stored" by (simp add: same_for_def)
  from confinement [OF this, of ps] both show ?thesis by (simp add: new_critical_ok(2))
qed

text \<open>
  Threads 1 and 2 use one object; the context of 1 is copied and restored into that of 2.
\<close>

definition demo_critical :: "int critical_call list" where
  "demo_critical = [CAssign 1 True 0 0 ''k'' 5, CAssign 1 False 0 0 ''k'' 6, CCopy 0 1, CAssign 2 True 1 0 ''k'' 7,
     CRead 2 True 1 0 ''k'', CRestore 1 1 0, CRead 1 True 0 0 ''k'', CRead 1 False 0 0 ''k'', CDelete 2 True 1 0 ''k'',
     CRead 2 True 1 0 ''k'']"

lemmas demo_critical_defs = demo_critical_def nothing_stored_def attributes_def with_attributes_def

lemma demo_critical_public: "list_all public_call demo_critical"
  by (simp add: demo_critical_def public_def own_slots_def)



theorem thread_critical_data_is_confined_witness:
  "results_of 1 demo_critical (fst (critical_history demo_critical new_critical)) =
     [Result None, Result None, Result (Some 5), Result (Some 6)]"
proof -
  have "without_others 1 demo_critical = [CAssign 1 True 0 0 ''k'' 5, CAssign 1 False 0 0 ''k'' 6, CCopy 0 1,
      CRestore 1 1 0, CRead 1 True 0 0 ''k'', CRead 1 False 0 0 ''k'']"
    by (simp add: without_others_def demo_critical_def)
  moreover have "list_all public_call (without_others 1 demo_critical)"
    unfolding calculation by (simp add: public_def own_slots_def)
  from critical_history_refines [OF new_critical_ok(1) this prod.collapse [symmetric]]
  have "fst (critical_history (without_others 1 demo_critical) new_critical) =
      fst (confined_history (without_others 1 demo_critical) nothing_stored)" by (simp add: new_critical_ok(2))
  ultimately show ?thesis
    using thread_critical_data_is_confined [OF demo_critical_public, of 1] by (simp add: demo_critical_defs)
qed

end
