(* ===== verification/Compatibility.thy ===== *)
theory Compatibility
  imports Prelude
begin

text \<open>
  \<open>asgiref/compatibility.py\<close>: telling double-callable (ASGI 2) applications from
  single-callable ones and wrapping the former.
\<close>

section \<open>Application objects\<close>

text \<open>
  What the tests look at (the two hint attributes by their truth value, absent attributes as
  false, as \<open>getattr(_, _, False)\<close> reads them), and what calling the object does: with one
  argument, the scope, and with three. An application that is awaited ends with a result or an
  exception; calling an object with the wrong number of arguments raises \<open>TypeError\<close>.
\<close>

type_synonym ('rc, 'sn, 'r) instance_call = "'rc \<Rightarrow> 'sn \<Rightarrow> exn + 'r"

record ('sc, 'rc, 'sn, 'r) application =
  asgi_single_callable :: bool
  asgi_double_callable :: bool
  is_class :: bool
  has_call :: bool
  call_is_coroutine :: bool
  is_coroutine :: bool
  call_scope :: "'sc \<Rightarrow> exn + ('rc, 'sn, 'r) instance_call"
  call_asgi :: "'sc \<Rightarrow> 'rc \<Rightarrow> 'sn \<Rightarrow> exn + 'r"

definition is_double_callable :: "('sc, 'rc, 'sn, 'r) application \<Rightarrow> bool" where
  "is_double_callable a = (if asgi_single_callable a then False
     else if asgi_double_callable a then True
     else if is_class a then True
     else if has_call a \<and> call_is_coroutine a then False
     else \<not> is_coroutine a)"

text \<open>
  The wrapper is an \<open>async def\<close> function: no hints, a coroutine function whose
  \<open>__call__\<close> is an ordinary method wrapper.
\<close>

definition double_to_single_callable :: "('sc, 'rc, 'sn, 'r) application \<Rightarrow> ('sc, 'rc, 'sn, 'r) application" where
  "double_to_single_callable a = \<lparr>asgi_single_callable = False, asgi_double_callable = False,
     is_class = False, has_call = True, call_is_coroutine = False, is_coroutine = True,
     call_scope = (\<lambda>_. Inl TypeError),
     call_asgi = (\<lambda>scope receive send. case call_scope a scope of
        Inl e \<Rightarrow> Inl e | Inr inst \<Rightarrow> inst receive send)\<rparr>"

definition guarantee_single_callable :: "('sc, 'rc, 'sn, 'r) application \<Rightarrow> ('sc, 'rc, 'sn, 'r) application" where
  "guarantee_single_callable a = (if is_double_callable a then double_to_single_callable a else a)"

lemma double_to_single_is_single [simp]: "\<not> is_double_callable (double_to_single_callable a)"
  by (simp add: is_double_callable_def double_to_single_callable_def)

lemma guarantee_is_single [simp]: "\<not> is_double_callable (guarantee_single_callable a)"
  by (simp add: guarantee_single_callable_def)

section \<open>Properties\<close>

text \<open>\<open>guarantee_single_callable\<close> delivers what it promises. The result tests as
  single-callable, applying it twice is applying it once, and calling the result with scope,
  receive and send does what the original does in its own style.\<close>

theorem guarantee_delivers_single:
  "\<not> is_double_callable (guarantee_single_callable a) \<and>
   guarantee_single_callable (guarantee_single_callable a) = guarantee_single_callable a \<and>
   call_asgi (guarantee_single_callable a) sc rc sn =
     (if is_double_callable a
      then (case call_scope a sc of Inl e \<Rightarrow> Inl e | Inr inst \<Rightarrow> inst rc sn)
      else call_asgi a sc rc sn)"
  by (simp add: guarantee_single_callable_def [of "guarantee_single_callable a"])
    (simp add: guarantee_single_callable_def double_to_single_callable_def)

text \<open>The decision of \<open>is_double_callable\<close>. A truthy single-callable hint wins over
  everything, then a double-callable hint, then being a class; otherwise the application is
  double-callable exactly when neither it nor its \<open>__call__\<close> is a coroutine function.\<close>

theorem is_double_callable_decision:
  "is_double_callable a \<longleftrightarrow> \<not> asgi_single_callable a \<and>
     (asgi_double_callable a \<or> is_class a \<or>
       \<not> ((has_call a \<and> call_is_coroutine a) \<or> is_coroutine a))"
  by (auto simp: is_double_callable_def)

end
