(* ===== verification/Timeout.thy ===== *)
theory Timeout
  imports Prelude
begin

text \<open>
  \<open>asgiref/timeout.py\<close>: the \<open>timeout\<close> context manager, together with the event loop's
  view of it: the timer or \<open>call_soon\<close> callback it leaves with the loop, and the
  cancellations it requests.
\<close>

section \<open>State\<close>

text \<open>
  The fields of the object, and of the loop what concerns this object: its clock, the callback
  queued by \<open>call_soon\<close>, the timer set by \<open>call_at\<close> with its due time, and the tasks on
  which \<open>cancel()\<close> was called. Times are of any ordered type with the operations the code
  uses; no law of arithmetic is assumed, so floating-point rounding is covered.
\<close>

type_synonym task = nat

record 't timeout =
  tm_timeout :: "'t option"
  tm_task :: "task option"
  tm_cancelled :: bool
  tm_handler :: bool \<comment> \<open>\<open>_cancel_handler\<close> holds the handle of the timer\<close>
  tm_at :: "'t option"

record 't tloop =
  clock :: 't
  soon :: bool
  timer :: "'t option"
  cancels :: "task list"

type_synonym 't tstate = "'t timeout \<times> 't tloop"

definition timeout_init :: "'t option \<Rightarrow> 't timeout" where
  "timeout_init t = \<lparr>tm_timeout = t, tm_task = None, tm_cancelled = False, tm_handler = False, tm_at = None\<rparr>"

section \<open>Operations\<close>

definition do_enter :: "task option \<Rightarrow> ('t :: {linorder, zero, plus} tstate, unit) py" where
  "do_enter current = (\<lambda>(tm, lp). case tm_timeout tm of
     None \<Rightarrow> (Inr (), tm, lp)
   | Some t \<Rightarrow> (case current of
       None \<Rightarrow> (Inl RuntimeError, tm\<lparr>tm_task := None\<rparr>, lp)
     | Some tk \<Rightarrow>
        (let tm' = tm\<lparr>tm_task := Some tk\<rparr>
         in if t \<le> 0 then (Inr (), tm', lp\<lparr>soon := True\<rparr>)
            else (Inr (), tm'\<lparr>tm_at := Some (clock lp + t), tm_handler := True\<rparr>,
                  lp\<lparr>timer := Some (clock lp + t)\<rparr>))))"

text \<open>\<open>exc\<close> is the class of the exception that leaves the block, if any.\<close>

definition do_exit :: "exn option \<Rightarrow> ('t tstate, unit) py" where
  "do_exit exc = (\<lambda>(tm, lp).
     if exc = Some CancelledError \<and> tm_cancelled tm
     then (Inl TimeoutError, tm\<lparr>tm_handler := False, tm_task := None\<rparr>, lp)
     else if tm_timeout tm \<noteq> None \<and> tm_handler tm
     then (Inr (), tm\<lparr>tm_handler := False, tm_task := None\<rparr>, lp\<lparr>timer := None\<rparr>)
     else (Inr (), tm\<lparr>tm_task := None\<rparr>, lp))"

definition cancel_task :: "'t tstate \<Rightarrow> 't tstate" where
  "cancel_task = (\<lambda>(tm, lp). case tm_task tm of
     None \<Rightarrow> (tm, lp)
   | Some tk \<Rightarrow> (tm\<lparr>tm_cancelled := True\<rparr>, lp\<lparr>cancels := cancels lp @ [tk]\<rparr>))"

definition expired :: "'t timeout \<Rightarrow> bool" where
  "expired tm = tm_cancelled tm"


text \<open>
  What the \<open>with\<close> statement does with the outcome of its block: \<open>__exit__\<close> returns
  \<open>None\<close>, so an exception it does not replace leaves the statement unchanged.
\<close>

definition leave :: "exn + 'a \<Rightarrow> ('t tstate, 'a) py" where
  "leave r = (\<lambda>s. case do_exit (case r of Inl e \<Rightarrow> Some e | Inr _ \<Rightarrow> None) s of
     (Inl e, s') \<Rightarrow> (Inl e, s') | (Inr _, s') \<Rightarrow> (r, s'))"

section \<open>Steps of the loop\<close>

text \<open>
  The loop runs a queued callback once, and a timer once when it is due; time passes. Firing
  drops the callback before it runs.
\<close>

datatype 't tevent = FireSoon | FireTimer | Tick 't

fun loop_event :: "('t :: linorder) tevent \<Rightarrow> 't tstate \<Rightarrow> 't tstate option" where
  "loop_event FireSoon (tm, lp) = (if soon lp then Some (cancel_task (tm, lp\<lparr>soon := False\<rparr>)) else None)"
| "loop_event FireTimer (tm, lp) = (case timer lp of
       None \<Rightarrow> None
     | Some at \<Rightarrow> if at \<le> clock lp then Some (cancel_task (tm, lp\<lparr>timer := None\<rparr>)) else None)"
| "loop_event (Tick t) (tm, lp) = (if clock lp \<le> t then Some (tm, lp\<lparr>clock := t\<rparr>) else None)"

inductive loop_step :: "('t :: linorder) tstate \<Rightarrow> 't tstate \<Rightarrow> bool" where
  loop_act: "loop_event ev s = Some t \<Longrightarrow> loop_step s t"

lemmas timeout_defs = timeout_init_def do_enter_def do_exit_def cancel_task_def leave_def

section \<open>Invariants\<close>

text \<open>
  After the block has been left, the object has no task, so no callback that is still queued
  cancels anything.
\<close>

definition left_block :: "task list \<Rightarrow> 't tstate \<Rightarrow> bool" where
  "left_block cs s \<longleftrightarrow> tm_task (fst s) = None \<and> cancels (snd s) = cs"

lemma left_block_event: "left_block cs s \<Longrightarrow> loop_event ev s = Some t \<Longrightarrow> left_block cs t"
  by (cases "(ev, s)" rule: loop_event.cases)
    (auto simp: left_block_def cancel_task_def split: if_splits option.splits)

interpretation left: stable_predicate "loop_step" "left_block cs" for cs
  by unfold_locales (auto elim: loop_step.cases intro: left_block_event)

text \<open>
  Inside the block: what was cancelled, what is still queued, and when. \<open>t0\<close> is the clock at
  entry, \<open>d\<close> the timeout and \<open>tk\<close> the task.
\<close>

definition in_block :: "'t \<Rightarrow> 't :: {linorder, zero, plus} \<Rightarrow> task \<Rightarrow> task list \<Rightarrow> 't tstate \<Rightarrow> bool" where
  "in_block t0 d tk cs s \<longleftrightarrow> tm_task (fst s) = Some tk \<and> tm_timeout (fst s) = Some d \<and>
     t0 \<le> clock (snd s) \<and>
     (if d \<le> 0 then timer (snd s) = None \<and> \<not> tm_handler (fst s) \<and> soon (snd s) = (\<not> tm_cancelled (fst s))
      else \<not> soon (snd s) \<and> tm_handler (fst s) \<and> tm_at (fst s) = Some (t0 + d) \<and>
        timer (snd s) = (if tm_cancelled (fst s) then None else Some (t0 + d)) \<and>
        (tm_cancelled (fst s) \<longrightarrow> t0 + d \<le> clock (snd s))) \<and>
     cancels (snd s) = (if tm_cancelled (fst s) then cs @ [tk] else cs)"

lemma in_block_event: "in_block t0 d tk cs s \<Longrightarrow> loop_event ev s = Some t \<Longrightarrow> in_block t0 d tk cs t"
  by (cases "(ev, s)" rule: loop_event.cases)
    (auto simp: in_block_def cancel_task_def split: if_splits option.splits)

interpretation inside: stable_predicate "loop_step" "in_block t0 d tk cs"
  for t0 d :: "'t :: {linorder, zero, plus}" and tk cs
  by unfold_locales (auto elim: loop_step.cases intro: in_block_event)

lemma enter_in_block:
  assumes "tm = timeout_init (Some d)" and "timer lp = None" and "\<not> soon lp"
  shows "in_block (clock lp) d tk (cancels lp) (snd (do_enter (Some tk) (tm, lp)))"
  using assms by (simp add: in_block_def do_enter_def timeout_init_def Let_def)

lemma in_block_reach:
  assumes "tm = timeout_init (Some d)" and "timer lp = None" and "\<not> soon lp"
    and "loop_step\<^sup>*\<^sup>* (snd (do_enter (Some tk) (tm, lp))) s"
  shows "in_block (clock lp) d tk (cancels lp) s"
  using inside.stays [OF assms(4)] enter_in_block [OF assms(1-3)] by blast

lemma leave_result:
  "fst (leave r s) = (if r = Inl CancelledError \<and> tm_cancelled (fst s) then Inl TimeoutError else r)"
  by (cases s; cases r) (auto simp: leave_def do_exit_def)

section \<open>Properties\<close>


definition demo_loop :: "int tloop" where
  "demo_loop = \<lparr>clock = 10, soon = False, timer = None, cancels = []\<rparr>"



text \<open>C30: no late cancellation. Once the block has been left, in whatever way, no callback of this
  object that is still queued in the loop cancels the task any more.\<close>

theorem no_cancel_after_exit:
  assumes "loop_step\<^sup>*\<^sup>* (snd (do_exit exc s)) t"
  shows "cancels (snd t) = cancels (snd s)"
proof -
  have "left_block (cancels (snd s)) (snd (do_exit exc s))"
    by (cases s) (auto simp: left_block_def do_exit_def)
  with left.stays [OF assms] have "left_block (cancels (snd s)) t" by blast
  then show ?thesis by (simp add: left_block_def)
qed

theorem no_cancel_after_exit_witness:
  "\<exists>t. loop_step (snd (do_exit None (snd (do_enter (Some 3) (timeout_init (Some 0), demo_loop))))) t \<and>
     cancels (snd t) = []"
proof -
  let ?s = "snd (do_enter (Some 3) (timeout_init (Some 0), demo_loop))"
  have "\<exists>t. loop_event FireSoon (snd (do_exit None ?s)) = Some t"
    by (simp add: timeout_defs demo_loop_def Let_def)
  then obtain t where t: "loop_step (snd (do_exit None ?s)) t" using loop_act by blast
  from no_cancel_after_exit [OF r_into_rtranclp [of loop_step, OF t]] t show ?thesis
    by (intro exI [of _ t]) (simp add: do_enter_def timeout_init_def demo_loop_def)
qed

text \<open>A timeout that is due does fire. Inside the block, if the timer is due (or the timeout was
  not positive) and has not expired, the loop has its callback to run, and running it expires the
  timeout and cancels the task.\<close>

theorem due_timeout_fires:
  assumes "timer lp = None" and "\<not> soon lp"
    and "loop_step\<^sup>*\<^sup>* (snd (do_enter (Some tk) (timeout_init (Some d), lp))) s"
    and "\<not> expired (fst s)" and "d \<le> 0 \<or> clock lp + d \<le> clock (snd s)"
  shows "\<exists>t. loop_event (if d \<le> 0 then FireSoon else FireTimer) s = Some t \<and> expired (fst t) \<and>
    cancels (snd t) = cancels lp @ [tk]"
  using in_block_reach [OF refl assms(1-3)] assms(4,5)
  by (cases s) (auto simp: in_block_def expired_def cancel_task_def split: if_splits)

theorem due_timeout_fires_witness:
  "\<exists>t. loop_event FireSoon (snd (do_enter (Some 3) (timeout_init (Some 0), demo_loop))) = Some t \<and>
     cancels (snd t) = [3]"
  using due_timeout_fires [of demo_loop 3 0, OF _ _ rtranclp.rtrancl_refl]
  by (simp add: demo_loop_def do_enter_def timeout_init_def expired_def)





text \<open>The edges of \<open>timeout\<close>. With \<open>None\<close> it does nothing at all, in or out of a task;
  with a value it refuses to be entered outside a task.\<close>

theorem timeout_edges:
  "do_enter current (timeout_init None, lp) = (Inr (), timeout_init None, lp) \<and>
   fst (leave r (timeout_init None, lp)) = r \<and>
   do_enter None (timeout_init (Some d), lp) = (Inl RuntimeError, timeout_init (Some d), lp)"
  by (simp add: leave_result) (simp add: do_enter_def timeout_init_def)

end
