(* ===== verification/Server.thy ===== *)
theory Server
  imports Compatibility
begin

text \<open>
  \<open>asgiref/server.py\<close>: the pool of application instances of \<open>StatelessServer\<close>, its
  eviction, and one pass of the application checker.
\<close>

section \<open>State\<close>

text \<open>
  Tasks live in a table: pending, ended (with the exception, if it raised), or ended by
  cancellation. \<open>cancel_log\<close> records the tasks on which \<open>cancel()\<close> was called.
\<close>

type_synonym tsk = nat
type_synonym queue = nat

datatype tstatus = TPending | TEnded "exn option" | TCancelled

fun task_done :: "tstatus \<Rightarrow> bool" where
  "task_done TPending = False"
| "task_done _ = True"

text \<open>\<open>future.exception()\<close> of a task that is done: raises for a cancelled one.\<close>

fun task_exception :: "tstatus \<Rightarrow> exn + exn option" where
  "task_exception (TEnded e) = Inr e"
| "task_exception TCancelled = Inl CancelledError"
| "task_exception TPending = Inl InvalidStateError"

record ('sc, 't, 'app) details =
  input_queue :: queue
  fut :: tsk
  scope :: 'sc
  last_used :: 't
  serves :: 'app \<comment> \<open>the single-callable application the task runs\<close>

record ('id, 'sc, 't, 'app) server =
  app :: 'app
  max_applications :: int
  instances :: "('id, ('sc, 't, 'app) details) dict"
  tasks :: "tsk \<Rightarrow> tstatus"
  next_id :: nat \<comment> \<open>numbers new tasks and queues\<close>
  cancel_log :: "tsk list"
  error_log :: "exn list" \<comment> \<open>what \<open>application_exception\<close> reported\<close>

section \<open>Deleting instances\<close>

definition delete_application_instance ::
  "'id \<Rightarrow> (('id, 'sc, 't, 'app) server, unit) py" where
  "delete_application_instance sid = (\<lambda>s. case dict_get (instances s) sid of
     None \<Rightarrow> (Inl KeyError, s)
   | Some d \<Rightarrow> (Inr (), s\<lparr>instances := dict_del sid (instances s),
       cancel_log := (if \<not> task_done (tasks s (fut d)) then cancel_log s @ [fut d] else cancel_log s)\<rparr>))"

text \<open>\<open>min\<close> over the values, which raises \<open>ValueError\<close> when there are none.\<close>

fun oldest_time :: "('id \<times> ('sc, 't :: linorder, 'app) details) list \<Rightarrow> 't option" where
  "oldest_time [] = None"
| "oldest_time ((i, d) # ds) = (case oldest_time ds of
     None \<Rightarrow> Some (last_used d) | Some t \<Rightarrow> Some (min (last_used d) t))"

definition delete_oldest_application_instance ::
  "(('id, 'sc, 't :: linorder, 'app) server, unit) py" where
  "delete_oldest_application_instance = (\<lambda>s. case oldest_time (instances s) of
     None \<Rightarrow> (Inl ValueError, s)
   | Some t \<Rightarrow> (case find (\<lambda>(i, d). last_used d = t) (instances s) of
       None \<Rightarrow> (Inr (), s)
     | Some (i, d) \<Rightarrow> delete_application_instance i s))"

lemma oldest_time_None [simp]: "oldest_time ds = None \<longleftrightarrow> ds = []"
  by (cases ds) (auto split: option.splits)

lemma oldest_time_le: "oldest_time ds = Some t \<Longrightarrow> (i, d) \<in> set ds \<Longrightarrow> t \<le> last_used d"
proof (induction ds arbitrary: t rule: oldest_time.induct)
  case (2 j e ds)
  show ?case
  proof (cases "oldest_time ds")
    case None
    with 2 show ?thesis by auto
  next
    case (Some u)
    with "2.prems" have t: "t = min (last_used e) u" by simp
    from "2.prems"(2) consider "d = e" | "(i, d) \<in> set ds" by auto
    then show ?thesis using "2.IH" [OF Some] t by cases (auto simp: min_le_iff_disj)
  qed
qed simp

lemma oldest_time_in: "oldest_time ds = Some t \<Longrightarrow> \<exists>p \<in> set ds. last_used (snd p) = t"
  by (induction ds arbitrary: t rule: oldest_time.induct)
    (fastforce simp: min_def split: option.splits if_splits)+

text \<open>The instance that \<open>delete_oldest_application_instance\<close> picks.\<close>

definition oldest :: "('id, ('sc, 't :: linorder, 'app) details) dict \<Rightarrow> 'id \<times> ('sc, 't, 'app) details" where
  "oldest ds = the (find (\<lambda>(i, d). Some (last_used d) = oldest_time ds) ds)"

lemma find_oldest:
  assumes "oldest_time ds = Some t"
  shows "find (\<lambda>(i, d). last_used d = t) ds = Some (oldest ds) \<and> oldest ds \<in> set ds \<and>
    last_used (snd (oldest ds)) = t"
proof -
  have eq: "(\<lambda>(i, d). Some (last_used d) = oldest_time ds) = (\<lambda>(i, d). last_used d = t)"
    using assms by (auto simp: fun_eq_iff)
  obtain p where "find (\<lambda>(i, d). last_used d = t) ds = Some p"
    using oldest_time_in [OF assms]
    by (cases "find (\<lambda>(i, d). last_used d = t) ds") (fastforce simp: find_None_iff)+
  moreover from find_SomeD [OF this] have "p \<in> set ds" "last_used (snd p) = t" by auto
  ultimately show ?thesis by (simp add: oldest_def eq)
qed

lemma delete_oldest_effect:
  assumes "instances s \<noteq> []" and "dict_ok (instances s)"
  shows "delete_oldest_application_instance s = (Inr (),
    s\<lparr>instances := dict_del (fst (oldest (instances s))) (instances s),
      cancel_log := (if \<not> task_done (tasks s (fut (snd (oldest (instances s)))))
        then cancel_log s @ [fut (snd (oldest (instances s)))] else cancel_log s)\<rparr>)"
proof -
  obtain t where t: "oldest_time (instances s) = Some t" using assms(1) by fastforce
  obtain i d where o1: "oldest (instances s) = (i, d)" by (cases "oldest (instances s)")
  with find_oldest [OF t] assms(2) have "dict_get (instances s) i = Some d"
    by (simp add: dict_ok_def)
  with find_oldest [OF t] t o1 show ?thesis
    by (simp add: delete_oldest_application_instance_def delete_application_instance_def)
qed

section \<open>Creating and reusing instances\<close>

text \<open>
  The eviction loop. Each round removes an instance or raises, so the number of instances
  bounds the rounds.
\<close>

lemma delete_oldest_shrinks:
  assumes "delete_oldest_application_instance s = (Inr (), s')"
  shows "length (instances s') < length (instances s)"
proof -
  from assms obtain t where t: "oldest_time (instances s) = Some t"
    by (cases "oldest_time (instances s)") (simp_all add: delete_oldest_application_instance_def)
  obtain i d where o1: "oldest (instances s) = (i, d)" by (cases "oldest (instances s)")
  with find_oldest [OF t] have "(i, d) \<in> set (instances s)" by simp
  then have "length (dict_del i (instances s)) < length (instances s)"
    by (auto simp: AList.delete_eq intro!: length_filter_less)
  with assms(1) t o1 find_oldest [OF t] show ?thesis
    by (auto simp: delete_oldest_application_instance_def delete_application_instance_def
        split: option.splits)
qed

function evict :: "('id, 'sc, 't :: linorder, 'app) server \<Rightarrow> (exn + unit) \<times> ('id, 'sc, 't, 'app) server" where
  "evict s = (if int (length (instances s)) > max_applications s
     then (case delete_oldest_application_instance s of
        (Inl e, s') \<Rightarrow> (Inl e, s')
      | (Inr _, s') \<Rightarrow> evict s')
     else (Inr (), s))"
  by pat_completeness auto
termination
  by (relation "measure (\<lambda>s. length (instances s))") (auto dest: delete_oldest_shrinks [OF sym])

declare evict.simps [simp del]

text \<open>
  \<open>get_or_create_application_instance\<close> at time \<open>now\<close>. A new instance gets a new queue and a
  new pending task that runs the application in single-callable style.
\<close>

definition touch :: "'id \<Rightarrow> 't \<Rightarrow> ('id, ('sc, 't, 'app) details) dict \<Rightarrow> ('id, ('sc, 't, 'app) details) dict" where
  "touch sid now ds = map (\<lambda>(i, d). (i, if i = sid then d\<lparr>last_used := now\<rparr> else d)) ds"

definition create_instance ::
  "('app \<Rightarrow> 'app) \<Rightarrow> 'id \<Rightarrow> 'sc \<Rightarrow> 't \<Rightarrow> ('id, 'sc, 't, 'app) server \<Rightarrow> queue \<times> ('id, 'sc, 't, 'app) server" where
  "create_instance guarantee sid sc now s = (next_id s,
     s\<lparr>instances := dict_set sid \<lparr>input_queue = next_id s, fut = next_id s, scope = sc,
          last_used = now, serves = guarantee (app s)\<rparr> (instances s),
       tasks := (tasks s)(next_id s := TPending), next_id := Suc (next_id s)\<rparr>)"

definition get_or_create_application_instance ::
  "('app \<Rightarrow> 'app) \<Rightarrow> 'id \<Rightarrow> 'sc \<Rightarrow> 't \<Rightarrow> (('id, 'sc, 't :: linorder, 'app) server, queue) py" where
  "get_or_create_application_instance guarantee sid sc now = (\<lambda>s. case dict_get (instances s) sid of
     Some d \<Rightarrow> (Inr (input_queue d), s\<lparr>instances := touch sid now (instances s)\<rparr>)
   | None \<Rightarrow> (case evict s of
       (Inl e, s') \<Rightarrow> (Inl e, s')
     | (Inr _, s') \<Rightarrow> (case create_instance guarantee sid sc now s' of (q, s'') \<Rightarrow> (Inr q, s''))))"

text \<open>The application that the package passes is wrapped by \<open>guarantee_single_callable\<close>.\<close>

abbreviation serve :: "'id \<Rightarrow> 'sc \<Rightarrow> 't \<Rightarrow>
    (('id, 'sc, 't :: linorder, ('sc, 'rc, 'sn, 'r) application) server, queue) py" where
  "serve \<equiv> get_or_create_application_instance guarantee_single_callable"

section \<open>Facts about the eviction loop\<close>

text \<open>What one round leaves alone, and what the loop leaves alone.\<close>

definition pool_ok :: "('id, 'sc, 't, 'app) server \<Rightarrow> bool" where
  "pool_ok s \<longleftrightarrow> dict_ok (instances s) \<and>
     (\<forall>(i, d) \<in> set (instances s). fut d < next_id s \<and> input_queue d < next_id s) \<and>
     distinct (map (fut \<circ> snd) (instances s))"

definition evicted_round :: "('id, 'sc, 't :: linorder, 'app) server \<Rightarrow> ('id, 'sc, 't, 'app) server" where
  "evicted_round s = (let (i, d) = oldest (instances s)
     in s\<lparr>instances := dict_del i (instances s),
        cancel_log := (if \<not> task_done (tasks s (fut d)) then cancel_log s @ [fut d] else cancel_log s)\<rparr>)"

lemma delete_oldest_round:
  assumes "dict_ok (instances s)" and "instances s \<noteq> []"
  shows "delete_oldest_application_instance s = (Inr (), evicted_round s)"
  using delete_oldest_effect [OF assms(2,1)]
  by (simp add: evicted_round_def case_prod_beta Let_def)

lemma oldest_in:
  assumes "ds \<noteq> []"
  shows "oldest ds \<in> set ds"
proof -
  obtain t where "oldest_time ds = Some t" using assms by fastforce
  from find_oldest [OF this] show ?thesis by simp
qed

lemma oldest_least:
  assumes "ds \<noteq> []" and "(i, d) \<in> set ds"
  shows "last_used (snd (oldest ds)) \<le> last_used d"
proof -
  obtain t where "oldest_time ds = Some t" using assms(1) by fastforce
  with find_oldest [OF this] oldest_time_le [OF this assms(2)] show ?thesis by simp
qed

lemma pool_ok_round:
  assumes "pool_ok s"
  shows "pool_ok (evicted_round s)"
  using assms
  by (auto simp: pool_ok_def evicted_round_def Let_def dict_del_filter dict_ok_def
      distinct_map_filter split: prod.splits)

lemma length_round:
  assumes "dict_ok (instances s)" and "instances s \<noteq> []"
  shows "Suc (length (instances (evicted_round s))) = length (instances s)"
proof -
  have "fst (oldest (instances s)) \<in> set (dict_keys (instances s))"
    using oldest_in [OF assms(2)] by simp
  with length_dict_del [OF assms(1)] show ?thesis
    by (simp add: evicted_round_def case_prod_beta Let_def)
qed

lemma evict_round:
  assumes "dict_ok (instances s)" and "0 \<le> max_applications s"
  shows "evict s = (if int (length (instances s)) > max_applications s
     then evict (evicted_round s) else (Inr (), s))"
proof (cases "int (length (instances s)) > max_applications s")
  case True
  with assms(2) have "instances s \<noteq> []" by auto
  with True delete_oldest_round [OF assms(1)] show ?thesis by (simp add: evict.simps [of s])
qed (simp add: evict.simps [of s])

text \<open>
  The loop as a whole, on a pool whose limit is not negative. \<open>evict_spec s t\<close>: \<open>t\<close> is \<open>s\<close>
  with some instances removed, each at most as recently used as every one that stays, their
  pending tasks cancelled, and at most \<open>max_applications\<close> instances left.
\<close>

definition evict_spec :: "('id, 'sc, 't :: linorder, 'app) server \<Rightarrow> ('id, 'sc, 't, 'app) server \<Rightarrow> bool" where
  "evict_spec s t \<longleftrightarrow> pool_ok t \<and>
     set (instances t) \<subseteq> set (instances s) \<and>
     (\<forall>p \<in> set (instances s) - set (instances t). \<forall>q \<in> set (instances t).
        last_used (snd p) \<le> last_used (snd q)) \<and>
     (\<forall>(i, d) \<in> set (instances s) - set (instances t).
        task_done (tasks s (fut d)) \<or> fut d \<in> set (cancel_log t)) \<and>
     set (cancel_log s) \<subseteq> set (cancel_log t) \<and>
     set (cancel_log t) \<subseteq> set (cancel_log s) \<union> fut ` snd ` (set (instances s) - set (instances t)) \<and>
     app t = app s \<and> max_applications t = max_applications s \<and> tasks t = tasks s \<and>
     next_id t = next_id s \<and> error_log t = error_log s"

lemma evict_spec_refl: "pool_ok s \<Longrightarrow> evict_spec s s"
  by (simp add: evict_spec_def)

lemma evict_spec_round:
  assumes "pool_ok s" and "instances s \<noteq> []" and "evict_spec (evicted_round s) t"
  shows "evict_spec s t"
proof -
  let ?o = "oldest (instances s)"
  obtain i d where o1: "?o = (i, d)" by (cases ?o)
  have inst: "set (instances (evicted_round s)) = set (instances s) - {?o}"
    using set_dict_del [of "instances s" i d] oldest_in [OF assms(2)] assms(1) o1
    by (simp add: evicted_round_def pool_ok_def)
  have le: "\<forall>q \<in> set (instances t). last_used d \<le> last_used (snd q)"
    using assms(3) oldest_least [OF assms(2)] o1 inst by (fastforce simp: evict_spec_def)
  have rest: "app (evicted_round s) = app s" "max_applications (evicted_round s) = max_applications s"
    "tasks (evicted_round s) = tasks s" "next_id (evicted_round s) = next_id s" "error_log (evicted_round s) = error_log s"
    "cancel_log (evicted_round s) = (if \<not> task_done (tasks s (fut d)) then cancel_log s @ [fut d] else cancel_log s)"
    using o1 by (simp_all add: evicted_round_def)
  have sub: "set (instances t) \<subseteq> set (instances s) - {(i, d)}"
    using assms(3) inst o1 by (simp add: evict_spec_def)
  have split: "set (instances s) - set (instances t) =
      insert (i, d) (set (instances (evicted_round s)) - set (instances t))"
    using inst o1 sub oldest_in [OF assms(2)] by auto
  show ?thesis
    unfolding evict_spec_def split
    using assms(3) le sub rest by (auto simp: evict_spec_def split: if_splits)
qed

lemma evict_total:
  assumes "pool_ok s" and "0 \<le> max_applications s"
  shows "\<exists>t. evict s = (Inr (), t) \<and> evict_spec s t \<and>
    length (instances t) = min (length (instances s)) (nat (max_applications s))"
  using assms
proof (induction "length (instances s)" arbitrary: s)
  case 0
  with evict_round [of s] show ?case by (simp add: evict_spec_refl pool_ok_def)
next
  case (Suc n)
  have ok: "dict_ok (instances s)" using Suc.prems(1) by (simp add: pool_ok_def)
  have ne: "instances s \<noteq> []" using Suc.hyps(2) by auto
  have mx: "max_applications (evicted_round s) = max_applications s"
    by (simp add: evicted_round_def case_prod_beta Let_def)
  show ?case
  proof (cases "int (length (instances s)) > max_applications s")
    case True
    with Suc.hyps(1) [of "evicted_round s"] length_round [OF ok ne] Suc.hyps(2) Suc.prems mx
    obtain t where t: "evict (evicted_round s) = (Inr (), t)" "evict_spec (evicted_round s) t"
      "length (instances t) = min (length (instances (evicted_round s))) (nat (max_applications s))"
      using pool_ok_round by (metis Suc_inject)
    with True evict_round [OF ok Suc.prems(2)] evict_spec_round [OF Suc.prems(1) ne t(2)]
      length_round [OF ok ne]
    show ?thesis by auto
  next
    case False
    with evict_round [OF ok Suc.prems(2)] Suc.prems show ?thesis
      by (auto simp: evict_spec_refl min_def)
  qed
qed

text \<open>With a negative limit the loop empties the pool and then fails in \<open>min\<close>.\<close>

lemma evict_negative:
  assumes "dict_ok (instances s)" and "max_applications s < 0"
  shows "fst (evict s) = Inl ValueError \<and> instances (snd (evict s)) = []"
  using assms
proof (induction "length (instances s)" arbitrary: s)
  case 0
  then show ?case
    by (simp add: evict.simps [of s] delete_oldest_application_instance_def)
next
  case (Suc n)
  then have ne: "instances s \<noteq> []" by auto
  have "dict_ok (instances (evicted_round s))" "max_applications (evicted_round s) < 0"
    using Suc.prems by (auto simp: evicted_round_def case_prod_beta Let_def)
  with Suc.hyps(1) [of "evicted_round s"] length_round [OF Suc.prems(1) ne] Suc.hyps(2)
  have "fst (evict (evicted_round s)) = Inl ValueError \<and> instances (snd (evict (evicted_round s))) = []"
    by simp
  with delete_oldest_round [OF Suc.prems(1) ne] Suc.prems(2) show ?case
    by (simp add: evict.simps [of s])
qed

section \<open>The application checker\<close>

text \<open>
  One pass over a snapshot of the pool. \<open>handler\<close> is \<open>application_exception\<close>: it is awaited,
  so its effect on the state includes whatever other tasks do meanwhile.
\<close>

fun checker_items ::
  "(exn \<Rightarrow> ('sc, 't, 'app) details \<Rightarrow> (('id, 'sc, 't, 'app) server, unit) py) \<Rightarrow>
   ('id, ('sc, 't, 'app) details) dict \<Rightarrow> (('id, 'sc, 't, 'app) server, unit) py" where
  "checker_items handler [] = py_return ()"
| "checker_items handler ((sid, d) # rest) = (\<lambda>s.
     if task_done (tasks s (fut d))
     then (case task_exception (tasks s (fut d)) of
        Inl e \<Rightarrow> (Inl e, s)
      | Inr exc \<Rightarrow> (case (case exc of None \<Rightarrow> (Inr (), s) | Some e \<Rightarrow> handler e d s) of
          (Inl e, s') \<Rightarrow> (Inl e, s')
        | (Inr _, s') \<Rightarrow> checker_items handler rest (s'\<lparr>instances := dict_del sid (instances s')\<rparr>)))
     else checker_items handler rest s)"

definition checker_pass ::
  "(exn \<Rightarrow> ('sc, 't, 'app) details \<Rightarrow> (('id, 'sc, 't, 'app) server, unit) py) \<Rightarrow>
   (('id, 'sc, 't, 'app) server, unit) py" where
  "checker_pass handler = (\<lambda>s. checker_items handler (instances s) s)"

definition application_exception ::
  "exn \<Rightarrow> ('sc, 't, 'app) details \<Rightarrow> (('id, 'sc, 't, 'app) server, unit) py" where
  "application_exception e d = (\<lambda>s. (Inr (), s\<lparr>error_log := error_log s @ [e]\<rparr>))"

definition task_errors :: "('id, 'sc, 't, 'app) server \<Rightarrow> ('id, ('sc, 't, 'app) details) dict \<Rightarrow> exn list" where
  "task_errors s ds = concat (map (\<lambda>(i, d). case tasks s (fut d) of TEnded (Some e) \<Rightarrow> [e] | _ \<Rightarrow> []) ds)"

lemma checker_items_effect:
  assumes "\<forall>(i, d) \<in> set ds. tasks s (fut d) \<noteq> TCancelled"
  shows "checker_items application_exception ds s = (Inr (),
    s\<lparr>instances := filter (\<lambda>p. fst p \<notin> fst ` {q \<in> set ds. task_done (tasks s (fut (snd q)))}) (instances s),
      error_log := error_log s @ task_errors s ds\<rparr>)"
  using assms
proof (induction ds arbitrary: s)
  case Nil
  then show ?case by (simp add: py_return_def task_errors_def)
next
  case (Cons p ds)
  obtain i d where p: "p = (i, d)" by (cases p)
  show ?case
  proof (cases "tasks s (fut d)")
    case TPending
    with Cons p have "checker_items application_exception (p # ds) s =
        checker_items application_exception ds s" by simp
    moreover have "{q \<in> set (p # ds). task_done (tasks s (fut (snd q)))} =
        {q \<in> set ds. task_done (tasks s (fut (snd q)))}" using TPending p by auto
    ultimately show ?thesis using Cons TPending p by (simp add: task_errors_def)
  next
    case (TEnded exc)
    let ?s' = "s\<lparr>instances := dict_del i (instances s),
       error_log := error_log s @ (case exc of None \<Rightarrow> [] | Some e \<Rightarrow> [e])\<rparr>"
    have "checker_items application_exception (p # ds) s = checker_items application_exception ds ?s'"
      using TEnded p by (cases exc; cases s) (simp_all add: application_exception_def)
    moreover have "{q \<in> set (p # ds). task_done (tasks s (fut (snd q)))} =
        insert (i, d) {q \<in> set ds. task_done (tasks s (fut (snd q)))}" using TEnded p by auto
    ultimately show ?thesis using Cons TEnded p
      by (simp add: task_errors_def dict_del_filter conj_commute split: option.splits)
  qed (use Cons.prems p in simp)
qed

section \<open>The main loop\<close>

text \<open>
  \<open>arun\<close> gathers the checker and \<open>handle()\<close>; \<open>handle\<close> returning raises the private
  \<open>Done\<close>. What ends the gather is the first of the two that raises.
\<close>

datatype gather_end = HandleReturned | HandleRaised exn | CheckerRaised exn

fun gather_exception :: "gather_end \<Rightarrow> exn" where
  "gather_exception HandleReturned = Done"
| "gather_exception (HandleRaised e) = e"
| "gather_exception (CheckerRaised e) = e"

definition arun :: "gather_end \<Rightarrow> exn + unit" where
  "arun g = (if gather_exception g = Done then Inr () else Inl (gather_exception g))"

definition server_run :: "gather_end \<Rightarrow> exn + unit" where
  "server_run g = (case arun g of Inr u \<Rightarrow> Inr u
     | Inl e \<Rightarrow> if e = KeyboardInterrupt then Inr () else Inl e)"

end
