(* ===== verification/Server_Properties.thy ===== *)
theory Server_Properties
  imports Server
begin

text \<open>
  Properties of the pool of application instances: reuse, eviction of the least recently used,
  the bound on the pool, that no task is lost, and what the checker does.
\<close>

section \<open>Single operations\<close>

lemma touch_keys [simp]: "fst ` set (touch sid now ds) = fst ` set ds"
  by (force simp: touch_def)

lemma touch_dict_keys [simp]: "dict_keys (touch sid now ds) = dict_keys ds"
  by (auto simp: touch_def)

lemma touch_futs [simp]: "map (fut \<circ> snd) (touch sid now ds) = map (fut \<circ> snd) ds"
  by (auto simp: touch_def)

lemma length_touch [simp]: "length (touch sid now ds) = length ds"
  by (simp add: touch_def)

lemma touch_get:
  "dict_get (touch sid now ds) i =
     map_option (\<lambda>d. if i = sid then d\<lparr>last_used := now\<rparr> else d) (dict_get ds i)"
  by (induction ds) (auto simp: touch_def)

lemma touch_set: "(i, d) \<in> set (touch sid now ds) \<Longrightarrow>
    \<exists>d'. (i, d') \<in> set ds \<and> fut d = fut d' \<and> input_queue d = input_queue d'"
  by (force simp: touch_def split: if_splits)

lemma pool_ok_touch: "pool_ok s \<Longrightarrow> pool_ok (s\<lparr>instances := touch sid now (instances s)\<rparr>)"
  by (fastforce simp: pool_ok_def dict_ok_def dest: touch_set)

lemma pool_ok_create:
  assumes "pool_ok s" and "dict_get (instances s) sid = None"
  shows "pool_ok (snd (create_instance g sid sc now s))"
proof -
  have "sid \<notin> set (dict_keys (instances s))" using assms(2) by (simp add: map_of_eq_None_iff)
  then show ?thesis
    using assms(1) by (force simp: pool_ok_def create_instance_def dict_set_fresh dict_ok_def)
qed

lemma pool_ok_delete: "pool_ok s \<Longrightarrow> pool_ok (snd (delete_application_instance sid s))"
  by (auto simp: delete_application_instance_def pool_ok_def dict_del_filter dict_ok_def
      distinct_map_filter split: option.splits)

lemma evict_spec_fields:
  assumes "evict_spec s u"
  shows "app u = app s" "max_applications u = max_applications s" "tasks u = tasks s"
    "next_id u = next_id s" "pool_ok u" "set (instances u) \<subseteq> set (instances s)"
  using assms unfolding evict_spec_def by blast+

lemma evict_fresh:
  assumes "evict_spec s u" and "dict_get (instances s) sid = None"
  shows "dict_get (instances u) sid = None \<and> (\<forall>x. dict_set sid x (instances u) = instances u @ [(sid, x)])"
proof -
  have "sid \<notin> fst ` set (instances u)"
    using evict_spec_fields(6) [OF assms(1)] assms(2) unfolding map_of_eq_None_iff by blast
  then show ?thesis by (simp add: dict_set_fresh map_of_eq_None_iff)
qed

text \<open>An instance that exists is reused. Asking for a known scope returns its queue, creates
  and cancels nothing, and changes only its time of last use.\<close>

theorem known_scope_is_reused:
  assumes "dict_get (instances s) sid = Some d"
  shows "serve sid sc now s = (Inr (input_queue d), s\<lparr>instances := touch sid now (instances s)\<rparr>) \<and>
    dict_keys (touch sid now (instances s)) = dict_keys (instances s) \<and>
    dict_get (touch sid now (instances s)) sid = Some (d\<lparr>last_used := now\<rparr>) \<and>
    (\<forall>i. i \<noteq> sid \<longrightarrow> dict_get (touch sid now (instances s)) i = dict_get (instances s) i)"
  using assms by (simp add: get_or_create_application_instance_def touch_get option.map_ident)

text \<open>C27: room is made by evicting the least recently used. Asking for a new scope, on a server whose
  limit is not negative, returns a fresh queue, leaves at most one instance more than the limit,
  stores the new one with a pending task for the single-callable application, and before that
  removes only instances that were used no later than every old one that stays; every evicted
  task is done or gets cancelled, and no other task is cancelled.\<close>

theorem new_scope_evicts_least_recently_used:
  assumes "pool_ok s" and "0 \<le> max_applications s" and "dict_get (instances s) sid = None"
  shows "\<exists>u t. evict s = (Inr (), u) \<and> evict_spec s u \<and> serve sid sc now s = (Inr (next_id s), t) \<and>
    instances t = instances u @ [(sid, \<lparr>input_queue = next_id s, fut = next_id s, scope = sc,
       last_used = now, serves = guarantee_single_callable (app s)\<rparr>)] \<and>
    tasks t (next_id s) = TPending \<and> cancel_log t = cancel_log u \<and>
    int (length (instances t)) \<le> max_applications s + 1"
proof -
  obtain u where u: "evict s = (Inr (), u)" "evict_spec s u"
    "length (instances u) = min (length (instances s)) (nat (max_applications s))"
    using evict_total [OF assms(1,2)] by blast
  let ?t = "snd (create_instance guarantee_single_callable sid sc now u)"
  note same = evict_spec_fields(1-4) [OF u(2)]
  have fresh: "dict_set sid x (instances u) = instances u @ [(sid, x)]" for x
    using evict_fresh [OF u(2) assms(3)] by blast
  have "serve sid sc now s = (Inr (next_id s), ?t)"
    using u(1) assms(3) same by (simp add: get_or_create_application_instance_def create_instance_def)
  moreover have "instances ?t = instances u @ [(sid, \<lparr>input_queue = next_id s, fut = next_id s, scope = sc,
       last_used = now, serves = guarantee_single_callable (app s)\<rparr>)]"
    by (simp add: create_instance_def fresh same)
  moreover have "tasks ?t (next_id s) = TPending" "cancel_log ?t = cancel_log u"
    by (simp_all add: create_instance_def same)
  moreover have "int (length (instances ?t)) \<le> max_applications s + 1"
    using u(3) assms(2) by (simp add: create_instance_def fresh)
  ultimately show ?thesis using u(1,2) by blast
qed

definition demo_app :: "(unit, unit, unit, unit) application" where
  "demo_app = \<lparr>asgi_single_callable = False, asgi_double_callable = False, is_class = False,
     has_call = True, call_is_coroutine = False, is_coroutine = True,
     call_scope = (\<lambda>_. Inl TypeError), call_asgi = (\<lambda>_ _ _. Inr ())\<rparr>"

definition demo_server :: "int \<Rightarrow> (nat, unit, int, (unit, unit, unit, unit) application) server" where
  "demo_server m = \<lparr>app = demo_app, max_applications = m,
     instances = [(7, \<lparr>input_queue = 0, fut = 0, scope = (), last_used = 5, serves = demo_app\<rparr>)],
     tasks = (\<lambda>_. TPending), next_id = 1, cancel_log = [], error_log = []\<rparr>"

lemma demo_server_ok: "pool_ok (demo_server m)"
  by (simp add: demo_server_def pool_ok_def dict_ok_def)

theorem known_scope_is_reused_witness:
  "fst (serve 7 () 9 (demo_server 3)) = Inr 0"
  using known_scope_is_reused [of "demo_server 3" 7 _ "()" 9] by (auto simp: demo_server_def)

theorem new_scope_evicts_least_recently_used_witness:
  "fst (serve 8 () 9 (demo_server 0)) = Inr 1"
proof -
  have "0 \<le> max_applications (demo_server 0)" "dict_get (instances (demo_server 0)) 8 = None"
    by (simp_all add: demo_server_def)
  from new_scope_evicts_least_recently_used [OF demo_server_ok this, of "()" 9] show ?thesis
    by (auto simp: demo_server_def)
qed

text \<open>The limit counts one too few. On a server with limit 1 and one instance, a second scope
  evicts nothing: two instances are alive afterwards, one more than \<open>max_applications\<close>.\<close>

theorem limit_allows_one_more:
  "length (instances (snd (serve 8 () 9 (demo_server 1)))) = 2 \<and>
   cancel_log (snd (serve 8 () 9 (demo_server 1))) = [] \<and> max_applications (demo_server 1) = 1"
  by (simp add: demo_server_def get_or_create_application_instance_def evict.simps create_instance_def)

text \<open>A negative limit makes every new scope fail: all instances are shut down and then
  \<open>min()\<close> of nothing raises \<open>ValueError\<close>.\<close>

theorem negative_limit_fails:
  assumes "dict_ok (instances s)" and "max_applications s < 0" and "dict_get (instances s) sid = None"
  shows "fst (serve sid sc now s) = Inl ValueError \<and> instances (snd (serve sid sc now s)) = []"
  using evict_negative [OF assms(1,2)] assms(3)
  by (auto simp: get_or_create_application_instance_def split: prod.splits sum.splits)

theorem negative_limit_fails_witness:
  "fst (serve 8 () 9 (demo_server (-1))) = Inl ValueError"
  using negative_limit_fails [of "demo_server (-1)" 8 "()" 9]
  by (simp add: demo_server_def dict_ok_def)

section \<open>Histories of the pool\<close>

text \<open>
  The operations that change the pool, in any order: a request, a deletion by user code, a task
  that ends by itself, a task that was asked to cancel and does, and a pass of the checker with
  the standard exception handler (which does not suspend, so the pass is one step).
\<close>

datatype ('id, 'sc, 't) pool_op =
  Serve 'id 'sc 't | Drop 'id | EndTask tsk "exn option" | CancelTask tsk | Check

fun pool_do :: "('id, 'sc, 't) pool_op \<Rightarrow>
    ('id, 'sc, 't :: linorder, ('sc, 'rc, 'sn, 'r) application) server \<Rightarrow>
    ('id, 'sc, 't, ('sc, 'rc, 'sn, 'r) application) server" where
  "pool_do (Serve sid sc now) s = snd (serve sid sc now s)"
| "pool_do (Drop sid) s = snd (delete_application_instance sid s)"
| "pool_do (EndTask f exc) s =
     (if tasks s f = TPending \<and> f < next_id s then s\<lparr>tasks := (tasks s)(f := TEnded exc)\<rparr> else s)"
| "pool_do (CancelTask f) s =
     (if tasks s f = TPending \<and> f \<in> set (cancel_log s) then s\<lparr>tasks := (tasks s)(f := TCancelled)\<rparr> else s)"
| "pool_do Check s = snd (checker_pass application_exception s)"

inductive pool_step :: "('id, 'sc, 't :: linorder, ('sc, 'rc, 'sn, 'r) application) server \<Rightarrow>
    ('id, 'sc, 't, ('sc, 'rc, 'sn, 'r) application) server \<Rightarrow> bool" where
  pool_act: "pool_step s (pool_do opn s)"

inductive_cases pool_stepE: "pool_step s t"

text \<open>A task is accounted for if it is tracked, done, or asked to cancel.\<close>

definition accounted :: "('id, 'sc, 't, 'app) server \<Rightarrow> tsk \<Rightarrow> bool" where
  "accounted s f \<longleftrightarrow> f \<in> (fut \<circ> snd) ` set (instances s) \<or> task_done (tasks s f) \<or> f \<in> set (cancel_log s)"

abbreviation tracked :: "('id, 'sc, 't, 'app) server \<Rightarrow> tsk set" where
  "tracked s \<equiv> (fut \<circ> snd) ` set (instances s)"

definition pool_inv :: "('id, 'sc, 't, 'app) server \<Rightarrow> bool" where
  "pool_inv s \<longleftrightarrow> pool_ok s \<and> 0 \<le> max_applications s \<and>
     int (length (instances s)) \<le> max_applications s + 1 \<and>
     (\<forall>f \<in> tracked s. tasks s f \<noteq> TCancelled \<and> f \<notin> set (cancel_log s)) \<and>
     (\<forall>f \<in> set (cancel_log s). f < next_id s) \<and>
     (\<forall>f < next_id s. accounted s f)"

definition pool_start :: "'app \<Rightarrow> int \<Rightarrow> ('id, 'sc, 't, 'app) server" where
  "pool_start a m = \<lparr>app = a, max_applications = m, instances = [], tasks = (\<lambda>_. TPending),
     next_id = 0, cancel_log = [], error_log = []\<rparr>"

definition pool_init :: "('id, 'sc, 't, 'app) server \<Rightarrow> bool" where
  "pool_init s \<longleftrightarrow> (\<exists>a m. 0 \<le> m \<and> s = pool_start a m)"

lemma evict_spec_evicted:
  assumes "evict_spec s t" and "p \<in> set (instances s)"
  shows "p \<in> set (instances t) \<or> task_done (tasks s (fut (snd p))) \<or> fut (snd p) \<in> set (cancel_log t)"
  using assms unfolding evict_spec_def by (cases p) fastforce

lemma accounted_evict:
  assumes "evict_spec s t" and "accounted s f"
  shows "accounted t f"
proof -
  have log: "set (cancel_log s) \<subseteq> set (cancel_log t)"
    using assms(1) unfolding evict_spec_def by blast
  note same = evict_spec_fields(3) [OF assms(1)]
  from assms(2) consider (tracked) p where "p \<in> set (instances s)" "f = fut (snd p)"
    | (over) "task_done (tasks s f) \<or> f \<in> set (cancel_log s)"
    by (auto simp: accounted_def)
  then show ?thesis
  proof cases
    case tracked
    with evict_spec_evicted [OF assms(1) tracked(1)] same show ?thesis
      by (auto simp: accounted_def)
  next
    case over
    with log same show ?thesis by (auto simp: accounted_def)
  qed
qed

lemma pool_invD:
  assumes "pool_inv s"
  shows "pool_ok s" "0 \<le> max_applications s"
    "int (length (instances s)) \<le> max_applications s + 1"
    "\<forall>f \<in> tracked s. tasks s f \<noteq> TCancelled \<and> f \<notin> set (cancel_log s)"
    "\<forall>f \<in> set (cancel_log s). f < next_id s"
    "\<forall>f < next_id s. accounted s f"
    "\<forall>f \<in> tracked s. f < next_id s"
proof -
  show "pool_ok s" using assms unfolding pool_inv_def by (elim conjE)
  then show "\<forall>f \<in> tracked s. f < next_id s" by (auto simp: pool_ok_def)
qed (insert assms [unfolded pool_inv_def], (elim conjE, assumption)+)

text \<open>Shrinking the pool without losing a task keeps the invariant.\<close>

lemma pool_inv_shrink:
  assumes "pool_inv s" and "pool_ok t" and "set (instances t) \<subseteq> set (instances s)"
    and "length (instances t) \<le> length (instances s)"
    and "set (cancel_log t) \<subseteq> set (cancel_log s) \<union> (tracked s - tracked t)"
    and "tasks t = tasks s" and "next_id t = next_id s" and "max_applications t = max_applications s"
    and acc: "\<And>f. accounted s f \<Longrightarrow> accounted t f"
  shows "pool_inv t"
proof -
  note inv = pool_invD [OF assms(1)]
  have sub: "tracked t \<subseteq> tracked s" using assms(3) by (rule image_mono)
  show ?thesis unfolding pool_inv_def
  proof (intro conjI ballI allI impI)
    fix f assume f: "f \<in> tracked t"
    note old = bspec [OF inv(4) subsetD [OF sub f]]
    from old assms(6) show "tasks t f \<noteq> TCancelled" by simp
    show "f \<notin> set (cancel_log t)"
    proof
      assume "f \<in> set (cancel_log t)"
      from subsetD [OF assms(5) this] old f show False by simp
    qed
  next
    fix f assume "f \<in> set (cancel_log t)"
    from subsetD [OF assms(5) this] have "f < next_id s"
    proof
      assume "f \<in> set (cancel_log s)"
      with inv(5) show ?thesis by (rule bspec)
    next
      assume "f \<in> tracked s - tracked t"
      then have "f \<in> tracked s" by (rule DiffD1)
      with inv(7) show ?thesis by (rule bspec)
    qed
    with assms(7) show "f < next_id t" by simp
  next
    fix f assume "f < next_id t"
    with assms(7) inv(6) have "accounted s f" by simp
    then show "accounted t f" by (rule acc)
  next
    show "pool_ok t" by (rule assms(2))
    from inv(2,3) assms(4,8) show "0 \<le> max_applications t" "int (length (instances t)) \<le> max_applications t + 1"
      by linarith+
  qed
qed

lemma gone_untracked:
  assumes "pool_ok s" and "set (instances t) \<subseteq> set (instances s)"
  shows "fut ` snd ` (set (instances s) - set (instances t)) \<subseteq> tracked s - tracked t"
proof -
  have "inj_on (fut \<circ> snd) (set (instances s))"
    using assms(1) by (simp add: pool_ok_def distinct_map)
  from inj_on_image_set_diff [OF this _ assms(2), of "set (instances s)"]
  show ?thesis by (simp add: image_comp)
qed

lemma pool_inv_evict:
  assumes "pool_inv s" and "evict_spec s u" and "length (instances u) \<le> length (instances s)"
  shows "pool_inv u"
proof (rule pool_inv_shrink [OF assms(1) evict_spec_fields(5,6) [OF assms(2)] assms(3) _
      evict_spec_fields(3,4,2) [OF assms(2)] accounted_evict [OF assms(2)]])
  have "set (cancel_log u) \<subseteq> set (cancel_log s) \<union> fut ` snd ` (set (instances s) - set (instances u))"
    using assms(2) unfolding evict_spec_def by blast
  from order_trans [OF this Un_mono [OF order_refl
      gone_untracked [OF pool_invD(1) [OF assms(1)] evict_spec_fields(6) [OF assms(2)]]]]
  show "set (cancel_log u) \<subseteq> set (cancel_log s) \<union> (tracked s - tracked u)" .
qed

lemma pool_inv_create:
  assumes "pool_inv u" and "dict_get (instances u) sid = None"
    and "int (length (instances u)) \<le> max_applications u"
  shows "pool_inv (snd (create_instance g sid sc now u))"
proof -
  let ?t = "snd (create_instance g sid sc now u)"
  note inv = pool_invD [OF assms(1)]
  have "sid \<notin> set (dict_keys (instances u))" using assms(2) by (simp add: map_of_eq_None_iff)
  from dict_set_fresh [OF this]
  have inst: "instances ?t = instances u @ [(sid, \<lparr>input_queue = next_id u, fut = next_id u,
      scope = sc, last_used = now, serves = g (app u)\<rparr>)]"
    by (simp add: create_instance_def)
  then have tr: "tracked ?t = insert (next_id u) (tracked u)" by simp
  have rest: "cancel_log ?t = cancel_log u" "next_id ?t = Suc (next_id u)"
    "tasks ?t = (tasks u)(next_id u := TPending)" "max_applications ?t = max_applications u"
    by (simp_all add: create_instance_def)
  show ?thesis unfolding pool_inv_def
  proof (intro conjI ballI allI impI)
    show "pool_ok ?t" using inv(1) assms(2) by (rule pool_ok_create)
    show "0 \<le> max_applications ?t" using inv(2) rest by simp
    show "int (length (instances ?t)) \<le> max_applications ?t + 1"
      using assms(3) inst rest by simp
  next
    fix f assume "f \<in> tracked ?t"
    then have f: "f = next_id u \<or> f \<in> tracked u" unfolding tr by (rule insertE) simp_all
    then show "tasks ?t f \<noteq> TCancelled" using inv(4) rest(3) by auto
    from f show "f \<notin> set (cancel_log ?t)" using inv(4,5) rest(1) by auto
  next
    fix f assume "f \<in> set (cancel_log ?t)"
    with inv(5) rest show "f < next_id ?t" by (simp add: less_SucI)
  next
    fix f assume lt: "f < next_id ?t"
    show "accounted ?t f"
    proof (cases "f = next_id u")
      case False
      with lt rest inv(6) have "accounted u f" by (simp add: less_Suc_eq)
      with False rest tr show ?thesis by (auto simp only: accounted_def fun_upd_apply insert_iff if_False)
    qed (simp only: accounted_def tr insert_iff simp_thms)
  qed
qed

lemma pool_inv_serve:
  assumes "pool_inv s"
  shows "pool_inv (snd (serve sid sc now s))"
proof (cases "dict_get (instances s) sid")
  case None
  have ok: "pool_ok s" "0 \<le> max_applications s" using assms by (simp_all add: pool_inv_def)
  obtain u where u: "evict s = (Inr (), u)" "evict_spec s u"
    "length (instances u) = min (length (instances s)) (nat (max_applications s))"
    using evict_total [OF ok] by blast
  have "pool_inv u" using pool_inv_evict [OF assms u(2)] u(3) by simp
  moreover have "dict_get (instances u) sid = None" using evict_fresh [OF u(2) None] by blast
  moreover have "int (length (instances u)) \<le> max_applications u"
    using u(3) ok(2) evict_spec_fields(2) [OF u(2)] by simp
  ultimately have "pool_inv (snd (create_instance guarantee_single_callable sid sc now u))"
    by (rule pool_inv_create)
  with None u(1) show ?thesis
    by (simp add: get_or_create_application_instance_def case_prod_beta)
next
  case (Some d)
  let ?t = "s\<lparr>instances := touch sid now (instances s)\<rparr>"
  have "instances ?t = touch sid now (instances s)" by simp
  with arg_cong [OF touch_futs [of sid now "instances s"], of set]
  have same: "tracked ?t = tracked s" by (simp only: set_map)
  then have acc: "accounted ?t f = accounted s f" for f by (simp only: accounted_def) simp
  have "pool_ok ?t" using assms pool_ok_touch by (auto simp: pool_inv_def)
  with assms same acc have "pool_inv ?t"
    unfolding pool_inv_def by (simp add: length_touch)
  with Some show ?thesis by (simp add: get_or_create_application_instance_def)
qed

lemma pool_inv_drop:
  assumes "pool_inv s"
  shows "pool_inv (snd (delete_application_instance sid s))"
proof (cases "dict_get (instances s) sid")
  case (Some d)
  let ?t = "s\<lparr>instances := dict_del sid (instances s),
       cancel_log := (if \<not> task_done (tasks s (fut d)) then cancel_log s @ [fut d] else cancel_log s)\<rparr>"
  have ok: "pool_ok s" by (rule pool_invD(1) [OF assms])
  have at: "(sid, d) \<in> set (instances s)" using Some by (rule map_of_SomeD)
  have del: "set (instances ?t) = set (instances s) - {(sid, d)}"
    using set_dict_del [OF _ at] ok by (simp add: pool_ok_def)
  have "set (instances ?t) \<subseteq> set (instances s)" unfolding del by (rule Diff_subset)
  moreover have "fut d \<in> fut ` snd ` (set (instances s) - set (instances ?t))"
    unfolding del using at by force
  ultimately have gone: "fut d \<in> tracked s - tracked ?t"
    by (rule subsetD [OF gone_untracked [OF ok]])
  have "pool_inv ?t"
  proof (rule pool_inv_shrink [OF assms])
    show "pool_ok ?t" using pool_ok_delete [OF ok, of sid] Some
      by (simp add: delete_application_instance_def)
    show "set (instances ?t) \<subseteq> set (instances s)" unfolding del by (rule Diff_subset)
    show "length (instances ?t) \<le> length (instances s)" by (simp add: dict_del_filter)
    show "set (cancel_log ?t) \<subseteq> set (cancel_log s) \<union> (tracked s - tracked ?t)"
      using gone by simp
    show "accounted ?t f" if "accounted s f" for f
    proof -
      have "tracked s \<subseteq> insert (fut d) (tracked ?t)" unfolding del by auto
      then have "f \<in> tracked ?t \<or> f = fut d \<or> task_done (tasks s f) \<or> f \<in> set (cancel_log s)"
        using that unfolding accounted_def by blast
      moreover have "task_done (tasks s (fut d)) \<or> fut d \<in> set (cancel_log ?t)" by simp
      moreover have "set (cancel_log s) \<subseteq> set (cancel_log ?t)" "tasks ?t = tasks s" by auto
      ultimately show ?thesis unfolding accounted_def by (elim disjE) auto
    qed
  qed simp_all
  with Some show ?thesis by (simp add: delete_application_instance_def)
qed (simp add: assms delete_application_instance_def)

lemma pool_inv_tasks:
  assumes "pool_inv s" and "tasks s f = TPending" and "st = TCancelled \<Longrightarrow> f \<in> set (cancel_log s)"
    and "task_done st"
  shows "pool_inv (s\<lparr>tasks := (tasks s)(f := st)\<rparr>)"
proof -
  note inv = pool_invD [OF assms(1)]
  have "st \<noteq> TCancelled" if "f \<in> tracked s" using that inv(4) assms(3) by auto
  moreover have "accounted (s\<lparr>tasks := (tasks s)(f := st)\<rparr>) g" if "accounted s g" for g
    using that assms(4) by (auto simp: accounted_def)
  ultimately show ?thesis using inv by (auto simp: pool_inv_def pool_ok_def)
qed

text \<open>What a pass of the checker leaves when no tracked task is cancelled.\<close>

lemma checker_pass_effect:
  assumes "dict_ok (instances s)" and "\<forall>f \<in> tracked s. tasks s f \<noteq> TCancelled"
  shows "checker_pass application_exception s = (Inr (),
    s\<lparr>instances := filter (\<lambda>p. \<not> task_done (tasks s (fut (snd p)))) (instances s),
      error_log := error_log s @ task_errors s (instances s)\<rparr>)"
proof -
  have "filter (\<lambda>p. fst p \<notin> fst ` {q \<in> set (instances s). task_done (tasks s (fut (snd q)))}) (instances s) =
      filter (\<lambda>p. \<not> task_done (tasks s (fut (snd p)))) (instances s)"
  proof (rule filter_cong [OF refl])
    fix p assume p: "p \<in> set (instances s)"
    have "p = q" if "q \<in> set (instances s)" "fst p = fst q" for q
      using that p assms(1) by (auto simp: dict_ok_def distinct_map dest: inj_onD)
    with p show "(fst p \<notin> fst ` {q \<in> set (instances s). task_done (tasks s (fut (snd q)))}) =
        (\<not> task_done (tasks s (fut (snd p))))" by blast
  qed
  moreover have "\<forall>(i, d) \<in> set (instances s). tasks s (fut d) \<noteq> TCancelled"
    using assms(2) by auto
  ultimately show ?thesis
    by (simp only: checker_pass_def checker_items_effect)
qed

lemma pool_inv_check:
  assumes "pool_inv s"
  shows "pool_inv (snd (checker_pass application_exception s))"
proof -
  note inv = pool_invD [OF assms]
  let ?t = "s\<lparr>instances := filter (\<lambda>p. \<not> task_done (tasks s (fut (snd p)))) (instances s),
      error_log := error_log s @ task_errors s (instances s)\<rparr>"
  have "pool_inv ?t"
  proof (rule pool_inv_shrink [OF assms])
    show "pool_ok ?t" using inv(1) by (auto simp: pool_ok_def dict_ok_def distinct_map_filter)
    show "accounted ?t f" if "accounted s f" for f using that by (auto simp: accounted_def)
  qed auto
  moreover have "dict_ok (instances s)" using inv(1) by (simp add: pool_ok_def)
  ultimately show ?thesis using checker_pass_effect inv(4) by (metis sndI)
qed

lemma pool_inv_step: "pool_inv s \<Longrightarrow> pool_step s t \<Longrightarrow> pool_inv t"
proof (elim pool_stepE)
  fix opn assume "pool_inv s" and t: "t = pool_do opn s"
  then show "pool_inv t"
    by (cases opn)
      (auto simp: pool_inv_serve pool_inv_drop pool_inv_check intro!: pool_inv_tasks)
qed

lemma pool_inv_init: "pool_init s \<Longrightarrow> pool_inv s"
  by (auto simp: pool_init_def pool_start_def pool_inv_def pool_ok_def)

interpretation pool: invariant_system pool_step pool_inv pool_init
  by unfold_locales (fact pool_inv_step, fact pool_inv_init)

text \<open>The demonstration history: two scopes are served, the first ends with an error.\<close>

definition demo_history :: "(nat, unit, int, (unit, unit, unit, unit) application) server" where
  "demo_history = pool_do (EndTask 0 (Some (UserExc 3))) (pool_do (Serve 8 () 6)
     (pool_do (Serve 7 () 5) (pool_start demo_app 1)))"

lemma reach_demo_history: "reach pool_init pool_step demo_history"
  unfolding demo_history_def
  by (intro reach_step [where step = pool_step, rotated, OF pool_act] reach_init) (use pool_init_def zero_le_one in blast)

lemma demo_history_eval:
  "map fst (instances demo_history) = [7, 8] \<and> next_id demo_history = 2 \<and>
   max_applications demo_history = 1 \<and> tasks demo_history 0 = TEnded (Some (UserExc 3)) \<and>
   tasks demo_history 1 = TPending \<and> map (fut \<circ> snd) (instances demo_history) = [0, 1] \<and>
   error_log demo_history = []"
  by (simp add: demo_history_def pool_start_def get_or_create_application_instance_def
      evict.simps create_instance_def)

text \<open>C22: the pool stays bounded and loses no task. After any history of requests, deletions, ending
  tasks and checker passes, from an empty server with a limit that is not negative, at most one
  instance more than the limit is tracked, scope ids and tasks of instances are distinct, and every task
  ever started is tracked, done, or was asked to cancel.\<close>

theorem pool_bounded_and_no_task_lost:
  assumes "reach pool_init pool_step s"
  shows "int (length (instances s)) \<le> max_applications s + 1 \<and> dict_ok (instances s) \<and>
    distinct (map (fut \<circ> snd) (instances s)) \<and>
    (\<forall>f < next_id s. f \<in> (fut \<circ> snd) ` set (instances s) \<or> task_done (tasks s f) \<or> f \<in> set (cancel_log s))"
proof -
  note inv = pool_invD [OF pool.invariant [OF assms]]
  from inv(1) have "dict_ok (instances s)" "distinct (map (fut \<circ> snd) (instances s))"
    by (simp_all add: pool_ok_def)
  with inv(3) inv(6) [unfolded accounted_def] show ?thesis by blast
qed

theorem pool_bounded_and_no_task_lost_witness:
  "length (instances demo_history) = 2 \<and> int (length (instances demo_history)) \<le> 1 + 1"
  using pool_bounded_and_no_task_lost [OF reach_demo_history] demo_history_eval
  by (metis length_map list.size(3,4) numeral_2_eq_2 add_0 One_nat_def plus_1_eq_Suc)



section \<open>Where the checker and its comments part\<close>

lemma checker_items_cancelled:
  "\<exists>(i, d) \<in> set ds. tasks s (fut d) = TCancelled \<Longrightarrow>
   fst (checker_items application_exception ds s) = Inl CancelledError"
proof (induction ds arbitrary: s)
  case (Cons p ds)
  obtain i d where p: "p = (i, d)" by (cases p)
  show ?case
  proof (cases "tasks s (fut d)")
    case (TEnded exc)
    with Cons p show ?thesis by (cases exc) (auto simp: application_exception_def)
  qed (use Cons p in auto)
qed simp

text \<open>An application that ends cancelled stops the whole server. If the task of some tracked
  instance was cancelled from outside \<open>delete_application_instance\<close> (or the application
  itself raised \<open>CancelledError\<close>), a checker pass raises \<open>CancelledError\<close>, \<open>arun\<close>
  hands it on and so does \<open>run\<close>.\<close>

theorem cancelled_instance_stops_server:
  assumes "(i, d) \<in> set (instances s)" and "tasks s (fut d) = TCancelled"
  shows "fst (checker_pass application_exception s) = Inl CancelledError \<and>
    server_run (CheckerRaised CancelledError) = Inl CancelledError"
proof -
  have "fst (checker_items application_exception (instances s) s) = Inl CancelledError"
    using assms by (intro checker_items_cancelled) auto
  then show ?thesis by (simp add: checker_pass_def server_run_def arun_def)
qed

theorem cancelled_instance_stops_server_witness:
  "fst (checker_pass application_exception ((demo_server 3)\<lparr>tasks := \<lambda>_. TCancelled\<rparr>)) = Inl CancelledError"
  using cancelled_instance_stops_server [of 7 "snd (instances (demo_server 3) ! 0)"
      "(demo_server 3)\<lparr>tasks := \<lambda>_. TCancelled\<rparr>"]
  by (simp add: demo_server_def)

text \<open>An exception handler that replaces the failed instance by a new one.\<close>

definition respawn :: "exn \<Rightarrow> (unit, int, (unit, unit, unit, unit) application) details \<Rightarrow>
    ((nat, unit, int, (unit, unit, unit, unit) application) server, unit) py" where
  "respawn e d = py_bind (delete_application_instance 7)
     (\<lambda>_. py_bind (serve 7 () 9) (\<lambda>_. py_return ()))"

text \<open>The checker drops an instance that the exception handler has just created. If
  \<open>application_exception\<close> deletes the failed scope and serves it again, the checker then removes
  the new instance, whose task stays pending, untracked and not cancelled.\<close>

theorem checker_drops_recreated_instance:
  "let s = (demo_server 3)\<lparr>tasks := (\<lambda>_. TPending)(0 := TEnded (Some (UserExc 1)))\<rparr>;
       t = snd (checker_pass respawn s)
   in fst (checker_pass respawn s) = Inr () \<and> instances t = [] \<and> next_id t = 2 \<and>
      tasks t 1 = TPending \<and> cancel_log t = []"
  by (simp add: demo_server_def checker_pass_def respawn_def delete_application_instance_def
      get_or_create_application_instance_def evict.simps create_instance_def py_simps Let_def)

text \<open>How the server ends. \<open>run\<close> returns normally exactly when \<open>handle\<close> returned or
  \<open>KeyboardInterrupt\<close> arrived; every other exception of \<open>handle\<close> or of the checker is
  handed on.\<close>

theorem server_run_outcome:
  "server_run g = (case g of HandleReturned \<Rightarrow> Inr ()
    | HandleRaised e \<Rightarrow> if e \<in> {Done, KeyboardInterrupt} then Inr () else Inl e
    | CheckerRaised e \<Rightarrow> if e \<in> {Done, KeyboardInterrupt} then Inr () else Inl e)"
  by (cases g) (auto simp: server_run_def arun_def)

end
