(* ===== verification/Server_Checker.thy ===== *)
theory Server_Checker
  imports Server_Properties
begin

text \<open>
  The application checker with an exception handler that suspends: while it waits in
  \<open>await self.application_exception(...)\<close>, requests, deletions and ending tasks change the
  pool under the snapshot that the pass goes through. What the checker then does with entries of
  its snapshot, when that is safe, and how it goes wrong.
\<close>

section \<open>The checker in steps\<close>

text \<open>
  Between two suspensions the checker is one uninterrupted run over the rest of its snapshot. It
  stops at the end of the pass, in the handler for a failed instance, or with an exception.
\<close>

datatype ('id, 'sc, 't, 'app) checker =
    Asleep
  | Handling 'id "('sc, 't, 'app) details" exn "('id, ('sc, 't, 'app) details) dict"
  | Died exn

fun scan :: "('id, ('sc, 't, 'app) details) dict \<Rightarrow> ('id, 'sc, 't, 'app) server \<Rightarrow>
    ('id, 'sc, 't, 'app) checker \<times> ('id, 'sc, 't, 'app) server" where
  "scan [] s = (Asleep, s)"
| "scan ((sid, d) # rest) s = (if task_done (tasks s (fut d))
     then (case task_exception (tasks s (fut d)) of
        Inl e \<Rightarrow> (Died e, s)
      | Inr None \<Rightarrow> scan rest (s\<lparr>instances := dict_del sid (instances s)\<rparr>)
      | Inr (Some e) \<Rightarrow> (Handling sid d e rest, s))
     else scan rest s)"

definition handled :: "'id \<Rightarrow> ('id, ('sc, 't, 'app) details) dict \<Rightarrow> ('id, 'sc, 't, 'app) server \<Rightarrow>
    ('id, 'sc, 't, 'app) checker \<times> ('id, 'sc, 't, 'app) server" where
  "handled sid rest s = scan rest (s\<lparr>instances := dict_del sid (instances s)\<rparr>)"

text \<open>The pass of \<open>Server\<close> is the same loop with the handler as one step.\<close>

lemma checker_items_scan:
  "checker_items handler ds s = (case scan ds s of
     (Asleep, t) \<Rightarrow> (Inr (), t)
   | (Died e, t) \<Rightarrow> (Inl e, t)
   | (Handling sid d e rest, t) \<Rightarrow> (case handler e d t of
        (Inl x, u) \<Rightarrow> (Inl x, u)
      | (Inr _, u) \<Rightarrow> checker_items handler rest (u\<lparr>instances := dict_del sid (instances u)\<rparr>)))"
  by (induction ds s rule: scan.induct) (auto simp: py_return_def split: option.splits sum.splits)

text \<open>
  The whole system. \<open>reports\<close> are the tasks that were handed to \<open>application_exception\<close>. The
  other operations of the pool happen while the checker sleeps or waits for the handler.
\<close>

record ('id, 'sc, 't, 'app) checked =
  pool :: "('id, 'sc, 't, 'app) server"
  checker :: "('id, 'sc, 't, 'app) checker"
  reports :: "tsk list"

datatype ('id, 'sc, 't) checker_op =
    Meanwhile "('id, 'sc, 't) pool_op" | PassStarts | HandlerEnds

definition enter :: "('id, 'sc, 't, 'app) checker \<times> ('id, 'sc, 't, 'app) server \<Rightarrow>
    ('id, 'sc, 't, 'app) checked \<Rightarrow> ('id, 'sc, 't, 'app) checked" where
  "enter p c = c\<lparr>pool := snd p, checker := fst p,
     reports := (case fst p of Handling sid d e rest \<Rightarrow> reports c @ [fut d] | _ \<Rightarrow> reports c)\<rparr>"

fun checker_do :: "('id, 'sc, 't) checker_op \<Rightarrow>
    ('id, 'sc, 't :: linorder, ('sc, 'rc, 'sn, 'r) application) checked \<Rightarrow>
    ('id, 'sc, 't, ('sc, 'rc, 'sn, 'r) application) checked option" where
  "checker_do (Meanwhile opn) c = (case checker c of
     Died e \<Rightarrow> None
   | _ \<Rightarrow> if opn = Check then None else Some (c\<lparr>pool := pool_do opn (pool c)\<rparr>))"
| "checker_do PassStarts c = (case checker c of
     Asleep \<Rightarrow> Some (enter (scan (instances (pool c)) (pool c)) c) | _ \<Rightarrow> None)"
| "checker_do HandlerEnds c = (case checker c of
     Handling sid d e rest \<Rightarrow> Some (enter (handled sid rest (pool c)) c) | _ \<Rightarrow> None)"






section \<open>The snapshot stays true\<close>











section \<open>The invariant\<close>











section \<open>What a suspended handler costs\<close>


fun checker_run :: "('id, 'sc, 't) checker_op list \<Rightarrow>
    ('id, 'sc, 't :: linorder, ('sc, 'rc, 'sn, 'r) application) checked \<Rightarrow>
    ('id, 'sc, 't, ('sc, 'rc, 'sn, 'r) application) checked option" where
  "checker_run [] c = Some c"
| "checker_run (a # as) c = (case checker_do a c of None \<Rightarrow> None | Some c' \<Rightarrow> checker_run as c')"

definition empty_pool :: "(nat, unit, int, (unit, unit, unit, unit) application) checked" where
  "empty_pool = \<lparr>pool = pool_start demo_app 1, checker = Asleep, reports = []\<rparr>"


text \<open>Two scopes are served, the first again, and its application fails.\<close>

definition failing :: "(nat, unit, int) checker_op list" where
  "failing = [Meanwhile (Serve 7 () 5), Meanwhile (Serve 8 () 6), Meanwhile (Serve 7 () 7),
     Meanwhile (EndTask 0 (Some (UserExc 3)))]"

lemmas pool_run = get_or_create_application_instance_def evict.simps create_instance_def touch_def
  delete_application_instance_def delete_oldest_application_instance_def enter_def handled_def






text \<open>An instance whose application has ended is handed out until the next pass of the checker:
  the caller gets its queue, which nobody reads, and no new task is started.\<close>

lemma ended_instance_is_handed_out:
  "\<exists>c. checker_run (failing @ [Meanwhile (Serve 7 () 8)]) empty_pool = Some c \<and>
     task_done (tasks (pool c) 0) \<and> next_id (pool c) = 2 \<and> fst (serve 7 () 8 (pool c)) = Inr 0"
  by (simp add: failing_def empty_pool_def pool_start_def pool_run)

end
