(* ===== verification/Testing.thy ===== *)
theory Testing
  imports Timeout Compatibility
begin

text \<open>
  \<open>asgiref/testing.py\<close>: \<open>ApplicationCommunicator\<close>, which runs an application in a task and
  exchanges messages with it through two queues. What the application does while an operation
  waits is a parameter.
\<close>

section \<open>State\<close>

datatype tstat = Pending | Returned | Raised exn | Cancelled

fun is_done :: "tstat \<Rightarrow> bool" where
  "is_done Pending = False"
| "is_done _ = True"

text \<open>\<open>future.result()\<close> of a task that is done, and what awaiting it gives.\<close>

fun task_result :: "tstat \<Rightarrow> exn + unit" where
  "task_result Returned = Inr ()"
| "task_result (Raised e) = Inl e"
| "task_result Cancelled = Inl CancelledError"
| "task_result Pending = Inl InvalidStateError"

text \<open>
  The task and the two queues are created on first use; \<open>runs\<close> is the single-callable
  application the task runs, and \<open>asked\<close> counts the calls of \<open>cancel()\<close> on the task.
\<close>

record ('m, 'app) communicator =
  runs :: 'app
  app_task :: "tstat option"
  input_q :: "'m list option"
  output_q :: "'m list option"
  asked :: nat

definition new_communicator :: "('sc, 'rc, 'sn, 'r) application \<Rightarrow>
    ('m, ('sc, 'rc, 'sn, 'r) application) communicator" where
  "new_communicator a = \<lparr>runs = guarantee_single_callable a, app_task = None, input_q = None,
     output_q = None, asked = 0\<rparr>"

definition input_queue :: "('m, 'app) communicator \<Rightarrow> 'm list \<times> ('m, 'app) communicator" where
  "input_queue c = (case input_q c of
     None \<Rightarrow> ([], c\<lparr>input_q := Some []\<rparr>) | Some q \<Rightarrow> (q, c))"

definition output_queue :: "('m, 'app) communicator \<Rightarrow> 'm list \<times> ('m, 'app) communicator" where
  "output_queue c = (case output_q c of
     None \<Rightarrow> ([], c\<lparr>output_q := Some []\<rparr>) | Some q \<Rightarrow> (q, c))"

text \<open>The task is created in an empty context and is given both queues.\<close>

definition get_future :: "('m, 'app) communicator \<Rightarrow> tstat \<times> ('m, 'app) communicator" where
  "get_future c = (case app_task c of
     Some t \<Rightarrow> (t, c)
   | None \<Rightarrow> (Pending, (snd (output_queue (snd (input_queue c))))\<lparr>app_task := Some Pending\<rparr>))"

definition set_status :: "tstat \<Rightarrow> ('m, 'app) communicator \<Rightarrow> ('m, 'app) communicator" where
  "set_status t c = c\<lparr>app_task := Some t\<rparr>"

definition request_cancel :: "('m, 'app) communicator \<Rightarrow> ('m, 'app) communicator" where
  "request_cancel c = c\<lparr>asked := Suc (asked c)\<rparr>"

section \<open>What the application does while an operation waits\<close>

text \<open>
  \<open>ends\<close>: its end, if it ends before the operation's timeout; \<open>on_cancel\<close>: how it ends once
  asked to cancel (\<open>None\<close>: it goes on for ever); \<open>emits\<close>: the messages it puts before the
  timeout.
\<close>

record 'm app_env =
  ends :: "tstat option"
  on_cancel :: "tstat option"
  emits :: "'m list"

text \<open>
  A block under \<open>async_timeout(d)\<close> in a task: the outcome of the block, after the timeout has
  fired or not.
\<close>

definition timed :: "int option \<Rightarrow> bool \<Rightarrow> exn + 'a \<Rightarrow> exn + 'a" where
  "timed d fires r = (let s = snd (do_enter (Some 0) (timeout_init d,
       \<lparr>clock = 0, soon = False, timer = None, cancels = []\<rparr>))
     in fst (leave r (if fires then cancel_task s else s)))"

lemma timed_some: "timed (Some d) fires r = (if r = Inl CancelledError \<and> fires then Inl TimeoutError else r)"
  by (simp add: timed_def leave_result do_enter_def timeout_init_def cancel_task_def Let_def)

lemma timed_none: "timed None fires r = r"
  by (simp add: timed_def leave_result do_enter_def timeout_init_def cancel_task_def Let_def)

section \<open>Operations\<close>

text \<open>
  \<open>wait\<close>. When the timeout fires, the waiting task is cancelled, which cancels the task it is
  awaiting: the application. \<open>None\<close>: the operation never returns.
\<close>

definition ended_by :: "int option \<Rightarrow> 'm app_env \<Rightarrow> ('m, 'app) communicator \<Rightarrow>
    (bool \<times> ('m, 'app) communicator) option" where
  "ended_by timeout env c = (case get_future c of (t, c1) \<Rightarrow>
     if is_done t then Some (False, c1)
     else (case ends env of
        Some t' \<Rightarrow> Some (False, set_status t' c1)
      | None \<Rightarrow> (case timeout of
          None \<Rightarrow> None
        | Some d \<Rightarrow> map_option (\<lambda>t'. (True, set_status t' (request_cancel c1))) (on_cancel env))))"

definition swallow_cancel :: "exn + unit \<Rightarrow> exn + unit" where
  "swallow_cancel r = (if r = Inl CancelledError then Inr () else r)"

definition cancel_and_wait :: "'m app_env \<Rightarrow> ('m, 'app) communicator \<Rightarrow>
    ((exn + unit) \<times> ('m, 'app) communicator) option" where
  "cancel_and_wait env c = map_option (\<lambda>t. (swallow_cancel (task_result t), set_status t (request_cancel c)))
     (on_cancel env)"

definition comm_wait :: "int option \<Rightarrow> 'm app_env \<Rightarrow> ('m, 'app) communicator \<Rightarrow>
    ((exn + unit) \<times> ('m, 'app) communicator) option" where
  "comm_wait timeout env c = (case ended_by timeout env c of
     None \<Rightarrow> None
   | Some (fired, c1) \<Rightarrow>
      (let r = timed timeout fired (swallow_cancel (task_result (fst (get_future c1))))
       in if \<not> is_done (fst (get_future c1))
          then (case cancel_and_wait env c1 of
             None \<Rightarrow> None
           | Some (Inl e, c2) \<Rightarrow> Some (Inl e, c2)
           | Some (Inr _, c2) \<Rightarrow> Some (r, c2))
          else Some (r, c1)))"

definition comm_stop :: "bool \<Rightarrow> bool \<Rightarrow> (('m, 'app) communicator, unit) py" where
  "comm_stop loop_closed exceptions = (\<lambda>c. case app_task c of
     None \<Rightarrow> (Inr (), c)
   | Some t \<Rightarrow> if \<not> is_done t then (if loop_closed then (Inl RuntimeError, c) else (Inr (), request_cancel c))
               else if exceptions then (task_result t, c) else (Inr (), c))"

definition comm_del :: "bool \<Rightarrow> (('m, 'app) communicator, unit) py" where
  "comm_del loop_closed = py_try (comm_stop loop_closed False) (\<lambda>e. e = RuntimeError) (\<lambda>_. py_return ())"

text \<open>Raises the exception of a task that has ended.\<close>

definition check_task :: "(('m, 'app) communicator, unit) py" where
  "check_task = (\<lambda>c. case get_future c of (t, c1) \<Rightarrow> ((if is_done t then task_result t else Inr ()), c1))"

definition send_input :: "'m \<Rightarrow> (('m, 'app) communicator, unit) py" where
  "send_input m = py_bind check_task (\<lambda>_. (\<lambda>c. case input_queue c of
     (q, c1) \<Rightarrow> (Inr (), c1\<lparr>input_q := Some (q @ [m])\<rparr>)))"

definition receive_output :: "int option \<Rightarrow> 'm app_env \<Rightarrow> ('m, 'app) communicator \<Rightarrow>
    ((exn + 'm) \<times> ('m, 'app) communicator) option" where
  "receive_output timeout env c = (case check_task c of
     (Inl e, c1) \<Rightarrow> Some (Inl e, c1)
   | (Inr _, c1) \<Rightarrow> (case output_queue c1 of
      (m # q, c2) \<Rightarrow> Some (timed timeout False (Inr m), c2\<lparr>output_q := Some q\<rparr>)
    | ([], c2) \<Rightarrow>
       (let c3 = (case ends env of Some t \<Rightarrow> if fst (get_future c2) = Pending then set_status t c2 else c2 | None \<Rightarrow> c2)
        in (case emits env of
           m # q \<Rightarrow> Some (timed timeout False (Inr m), c3\<lparr>output_q := Some q\<rparr>)
         | [] \<Rightarrow> (case timeout of
             None \<Rightarrow> None
           | Some d \<Rightarrow>
              (let e = timed timeout True (Inl CancelledError)
               in if is_done (fst (get_future c3))
                  then Some ((case task_result (fst (get_future c3)) of Inl x \<Rightarrow> Inl x | Inr _ \<Rightarrow> e), c3)
                  else (case cancel_and_wait env c3 of
                     None \<Rightarrow> None
                   | Some (Inl x, c4) \<Rightarrow> Some (Inl x, c4)
                   | Some (Inr _, c4) \<Rightarrow> Some (e, c4))))))))"

text \<open>
  \<open>receive_nothing\<close>: one round per list element, which holds what the application puts during
  the round's sleep; the time is up after the last.
\<close>

fun poll :: "'m list list \<Rightarrow> 'm list \<Rightarrow> bool \<times> 'm list" where
  "poll [] q = (q = [], q)"
| "poll (ms # rounds) q = (if q \<noteq> [] then (False, q) else poll rounds (q @ ms))"

definition receive_nothing :: "'m list list \<Rightarrow> (('m, 'app) communicator, bool) py" where
  "receive_nothing rounds = py_bind check_task (\<lambda>_. (\<lambda>c. case output_queue c of
     (q, c1) \<Rightarrow> (case poll rounds q of (b, q') \<Rightarrow> (Inr b, c1\<lparr>output_q := Some q'\<rparr>))))"

section \<open>Properties\<close>

text \<open>\<open>wait\<close> returns with the application stopped. If the application ends on its own or when
  cancelled, \<open>wait\<close> returns, the task is done, and its outcome is the application's exception or
  nothing; it raises neither \<open>CancelledError\<close> nor a \<open>TimeoutError\<close> of its own, and the
  final clean-up never cancels, since the timeout already has.\<close>

theorem wait_stops_application:
  assumes "ends env \<noteq> Some Pending" and "on_cancel env = Some t'" and "is_done t'"
  shows "\<exists>t c1. comm_wait (Some d) env c = Some (swallow_cancel (task_result t), c1) \<and>
    app_task c1 = Some t \<and> is_done t \<and>
    t = (if is_done (fst (get_future c)) then fst (get_future c) else case ends env of Some t \<Rightarrow> t | None \<Rightarrow> t') \<and>
    asked c1 = asked c + (if \<not> is_done (fst (get_future c)) \<and> ends env = None then 1 else 0)"
proof -
  obtain t0 c0 where g: "get_future c = (t0, c0)" by fastforce
  then have c0: "asked c0 = asked c" "app_task c0 = Some t0"
    by (auto simp: get_future_def input_queue_def output_queue_def split: option.splits)
  let ?t = "if is_done t0 then t0 else case ends env of Some t \<Rightarrow> t | None \<Rightarrow> t'"
  have done1: "is_done ?t"
  proof (cases "ends env")
    case (Some t)
    with assms(1) show ?thesis by (cases t) auto
  qed (simp add: assms(3))
  have "\<exists>f c1. ended_by (Some d) env c = Some (f, c1) \<and> app_task c1 = Some ?t \<and>
      asked c1 = asked c + (if \<not> is_done t0 \<and> ends env = None then 1 else 0)"
    using g c0 assms(2)
    by (cases "ends env") (auto simp: ended_by_def set_status_def request_cancel_def)
  then obtain f c1 where e: "ended_by (Some d) env c = Some (f, c1)" "app_task c1 = Some ?t"
      "asked c1 = asked c + (if \<not> is_done t0 \<and> ends env = None then 1 else 0)" by blast
  have "get_future c1 = (?t, c1)" using e(2) by (simp add: get_future_def)
  then have "comm_wait (Some d) env c = Some (swallow_cancel (task_result ?t), c1)"
    using e(1) done1 by (simp only: comm_wait_def option.case prod.case Let_def fst_conv if_False not_not simp_thms)
      (simp add: timed_some swallow_cancel_def)
  with e done1 g show ?thesis by (simp only: fst_conv) blast
qed

definition demo_comm :: "tstat option \<Rightarrow> nat list \<Rightarrow> (nat, unit) communicator" where
  "demo_comm t q = \<lparr>runs = (), app_task = t, input_q = Some [], output_q = Some q, asked = 0\<rparr>"

theorem wait_stops_application_witness:
  "\<exists>c1. comm_wait (Some 1) \<lparr>ends = None, on_cancel = Some Cancelled, emits = []\<rparr> (demo_comm None []) = Some (Inr (), c1)"
  using wait_stops_application [of "\<lparr>ends = None, on_cancel = Some Cancelled, emits = []\<rparr>" Cancelled 1 "demo_comm None []"]
  by (auto simp: demo_comm_def get_future_def input_queue_def output_queue_def swallow_cancel_def)

text \<open>\<open>receive_output\<close> delivers every message once and in order, or stops the application. From
  a communicator whose task has not failed, it returns the first of the queued messages and those
  that arrive in time, and keeps the others; if there is none, it raises the application's
  exception if it ended with one, and otherwise \<open>TimeoutError\<close>, and the task is done.\<close>

theorem receive_output_in_order:
  assumes "app_task c = Some t" and "t \<in> {Pending, Returned}" and "output_q c = Some q"
    and "ends env \<noteq> Some Pending" and "on_cancel env = Some t'" and "is_done t'"
    and "t' \<noteq> Raised CancelledError" \<comment> \<open>such a task counts as cancelled\<close>
  shows "\<exists>r c1. receive_output (Some d) env c = Some (r, c1) \<and>
    (case q @ (if q = [] then emits env else []) of
       m # ms \<Rightarrow> r = Inr m \<and> output_q c1 = Some ms
     | [] \<Rightarrow> (\<exists>t1. app_task c1 = Some t1 \<and> is_done t1 \<and>
         r = (case t1 of Raised x \<Rightarrow> Inl x
              | Cancelled \<Rightarrow> if t = Pending \<and> ends env = Some Cancelled then Inl CancelledError else Inl TimeoutError
              | _ \<Rightarrow> Inl TimeoutError)))"
proof -
  have check: "check_task c = (Inr (), c)"
    using assms(1,2) by (auto simp: check_task_def get_future_def)
  have e: "timed (Some d) True (Inl CancelledError :: exn + 'a) = Inl TimeoutError"
    "timed (Some d) False (Inr m :: exn + 'a) = Inr m" for m by (simp_all add: timed_some)
  show ?thesis
  proof (cases "q @ (if q = [] then emits env else [])")
    case (Cons m ms)
    then show ?thesis using check assms(3)
      by (cases q) (auto simp: receive_output_def output_queue_def e Let_def)
  next
    case Nil
    then have "q = []" "emits env = []" by (auto split: if_splits)
    have dt: "\<exists>t1. t1 = t' \<and> is_done t1" using assms(6) by simp
    consider "t = Returned" | "t = Pending" "ends env = None" | u where "t = Pending" "ends env = Some u" "is_done u"
      using assms(2,4) by (cases "ends env") (metis insert_iff singletonD, metis insert_iff is_done.elims(3) singletonD)
    then show ?thesis
    proof cases
      case 1
      with check assms \<open>q = []\<close> \<open>emits env = []\<close> show ?thesis
        by (simp add: receive_output_def output_queue_def e Let_def get_future_def set_status_def split: option.split)
    next
      case 2
      with check assms \<open>q = []\<close> \<open>emits env = []\<close> show ?thesis
        by (cases t') (simp_all add: receive_output_def output_queue_def e Let_def get_future_def
            cancel_and_wait_def set_status_def request_cancel_def swallow_cancel_def)
    next
      case 3
      with check assms \<open>q = []\<close> \<open>emits env = []\<close> show ?thesis
        by (cases u) (simp_all add: receive_output_def output_queue_def e Let_def get_future_def set_status_def)
    qed
  qed
qed

theorem receive_output_in_order_witness:
  "\<exists>c1. receive_output (Some 1) \<lparr>ends = None, on_cancel = Some Cancelled, emits = []\<rparr>
     (demo_comm (Some Pending) [4, 5]) = Some (Inr 4, c1) \<and> output_q c1 = Some [5]"
  using receive_output_in_order [of "demo_comm (Some Pending) [4, 5]" Pending "[4, 5]"
      "\<lparr>ends = None, on_cancel = Some Cancelled, emits = []\<rparr>" Cancelled 1]
  by (simp add: demo_comm_def)

lemma poll_result:
  "\<exists>k \<le> length rounds. poll rounds q = (q @ concat rounds = [], q @ concat (take k rounds))"
proof (induction rounds arbitrary: q)
  case (Cons ms rounds)
  show ?case
  proof (cases "q = []")
    case True
    from Cons.IH [of ms] obtain k where "k \<le> length rounds"
      "poll rounds ms = (ms @ concat rounds = [], ms @ concat (take k rounds))" by blast
    with True show ?thesis by (intro exI [of _ "Suc k"]) simp
  qed (auto intro: exI [of _ 0])
qed simp

text \<open>\<open>receive_nothing\<close> looks without taking. It answers true exactly when no message is queued or
  arrives until the time is up, whatever the rounds, and every message stays queued in order.\<close>

theorem receive_nothing_looks_only:
  assumes "app_task c = Some t" and "t \<in> {Pending, Returned}" and "output_q c = Some q"
  shows "\<exists>k c1. receive_nothing rounds c = (Inr (q @ concat rounds = []), c1) \<and>
    output_q c1 = Some (q @ concat (take k rounds))"
proof -
  have "check_task c = (Inr (), c)"
    using assms(1,2) by (auto simp: check_task_def get_future_def)
  moreover obtain k where "poll rounds q = (q @ concat rounds = [], q @ concat (take k rounds))"
    using poll_result by blast
  ultimately show ?thesis using assms(3)
    by (auto simp: receive_nothing_def py_bind_def output_queue_def)
qed

theorem receive_nothing_looks_only_witness:
  "fst (receive_nothing [[], [4]] (demo_comm (Some Pending) [])) = Inr False"
  using receive_nothing_looks_only [of "demo_comm (Some Pending) []" Pending "[]" "[[], [4]]"]
  by (auto simp: demo_comm_def)

text \<open>Deleting a communicator never raises, and does not ask a finished task to cancel.\<close>

lemma comm_del_silent:
  "fst (comm_del loop_closed c) = Inr () \<and>
   (app_task c \<noteq> Some Pending \<longrightarrow> snd (comm_del loop_closed c) = c)"
  by (auto simp: comm_del_def comm_stop_def py_simps split: option.splits) (metis is_done.simps(1) is_done.elims(3))+

end
