(* ===== verification/Testing_Histories.thy ===== *)
theory Testing_Histories
  imports Testing
begin

text \<open>
  A whole test: an \<open>ApplicationCommunicator\<close> together with the application that its task runs.
  The application is an interaction tree; the calls of the tester and the steps of the
  application alternate in any order. What the tester receives is what the application, run on
  what the tester sent, puts out.
\<close>

section \<open>Applications\<close>

text \<open>
  An application awaits \<open>receive()\<close>, awaits \<open>send(m)\<close> (which never suspends, since the queue is
  unbounded), awaits something else, or is at its end. The status at an await is how the application ends
  if it is cancelled there.
\<close>

datatype 'm proc = Receive "'m \<Rightarrow> 'm proc" tstat | Send 'm "'m proc" | Awaits "'m proc" tstat | Ends tstat

text \<open>What an application puts out for the given input messages.\<close>

primrec says :: "'m proc \<Rightarrow> 'm list \<Rightarrow> 'm list" where
  "says (Receive f t) ms = (case ms of [] \<Rightarrow> [] | m # rest \<Rightarrow> says (f m) rest)"
| "says (Send m p) ms = m # says p ms"
| "says (Awaits p t) ms = says p ms"
| "says (Ends t) ms = []"

fun suspended :: "'m proc \<Rightarrow> tstat option" where
  "suspended (Receive f t) = Some t"
| "suspended (Awaits p t) = Some t"
| "suspended _ = None"

section \<open>Histories\<close>

text \<open>
  \<open>given\<close>: what \<open>send_input\<close> accepted; \<open>taken\<close>: what the application read of it; \<open>got\<close>: what
  \<open>receive_output\<close> returned.
\<close>

record 'm test =
  comm :: "('m, unit) communicator"
  proc :: "'m proc"
  given :: "'m list"
  taken :: "'m list"
  got :: "'m list"

datatype 'm test_op =
    SendInput 'm | ReceiveOutput | TimesOut | LooksEmpty | Stops bool | Waits
  | Takes | Puts | Wakes | Finishes | GetsCancelled

text \<open>
  An operation that suspends takes place when it can go on: \<open>receive_output\<close> when a message
  is there, or the task has failed; its timeout, and that of \<open>wait\<close>, when the application is
  suspended. \<open>None\<close>: not possible now.
\<close>

definition quiet :: "tstat option \<Rightarrow> 'm app_env" where
  "quiet t = \<lparr>ends = None, on_cancel = t, emits = []\<rparr>"

fun test_do :: "'m test_op \<Rightarrow> 'm test \<Rightarrow> ((exn + 'm option) \<times> 'm test) option" where
  "test_do (SendInput m) s = (case send_input m (comm s) of
     (Inl e, c) \<Rightarrow> Some (Inl e, s\<lparr>comm := c\<rparr>)
   | (Inr _, c) \<Rightarrow> Some (Inr None, s\<lparr>comm := c, given := given s @ [m]\<rparr>))"
| "test_do ReceiveOutput s = (case receive_output None (quiet None) (comm s) of
     None \<Rightarrow> None
   | Some (Inl e, c) \<Rightarrow> Some (Inl e, s\<lparr>comm := c\<rparr>)
   | Some (Inr m, c) \<Rightarrow> Some (Inr (Some m), s\<lparr>comm := c, got := got s @ [m]\<rparr>))"
| "test_do TimesOut s = (if fst (output_queue (comm s)) \<noteq> [] then None
     else (case receive_output (Some 1) (quiet (suspended (proc s))) (comm s) of
        None \<Rightarrow> None
      | Some (Inl e, c) \<Rightarrow> Some (Inl e, s\<lparr>comm := c\<rparr>)
      | Some (Inr m, c) \<Rightarrow> None))"
| "test_do LooksEmpty s = (case receive_nothing [] (comm s) of
     (Inl e, c) \<Rightarrow> Some (Inl e, s\<lparr>comm := c\<rparr>) | (Inr b, c) \<Rightarrow> Some (Inr None, s\<lparr>comm := c\<rparr>))"
| "test_do (Stops exceptions) s = (case comm_stop False exceptions (comm s) of
     (Inl e, c) \<Rightarrow> Some (Inl e, s\<lparr>comm := c\<rparr>) | (Inr _, c) \<Rightarrow> Some (Inr None, s\<lparr>comm := c\<rparr>))"
| "test_do Waits s = (case comm_wait (Some 1) (quiet (suspended (proc s))) (comm s) of
     None \<Rightarrow> None
   | Some (Inl e, c) \<Rightarrow> Some (Inl e, s\<lparr>comm := c\<rparr>)
   | Some (Inr _, c) \<Rightarrow> Some (Inr None, s\<lparr>comm := c\<rparr>))"
| "test_do Takes s = (if app_task (comm s) \<noteq> Some Pending then None
     else (case (proc s, input_q (comm s)) of
        (Receive f t, Some (m # q)) \<Rightarrow>
          Some (Inr None, s\<lparr>comm := (comm s)\<lparr>input_q := Some q\<rparr>, proc := f m, taken := taken s @ [m]\<rparr>)
      | _ \<Rightarrow> None))"
| "test_do Puts s = (if app_task (comm s) \<noteq> Some Pending then None
     else (case (proc s, output_q (comm s)) of
        (Send m p, Some q) \<Rightarrow> Some (Inr None, s\<lparr>comm := (comm s)\<lparr>output_q := Some (q @ [m])\<rparr>, proc := p\<rparr>)
      | _ \<Rightarrow> None))"
| "test_do Wakes s = (if app_task (comm s) \<noteq> Some Pending then None
     else (case proc s of Awaits p t \<Rightarrow> Some (Inr None, s\<lparr>proc := p\<rparr>) | _ \<Rightarrow> None))"
| "test_do Finishes s = (if app_task (comm s) \<noteq> Some Pending then None
     else (case proc s of Ends t \<Rightarrow> Some (Inr None, s\<lparr>comm := set_status t (comm s)\<rparr>) | _ \<Rightarrow> None))"
| "test_do GetsCancelled s = (if app_task (comm s) \<noteq> Some Pending \<or> asked (comm s) = 0 then None
     else map_option (\<lambda>t. (Inr None, s\<lparr>comm := set_status t (comm s)\<rparr>)) (suspended (proc s)))"

inductive test_step :: "'m test \<Rightarrow> 'm test \<Rightarrow> bool" where
  "test_do a s = Some (r, s') \<Longrightarrow> test_step s s'"

inductive_cases test_stepE: "test_step s s'"

definition test_start :: "'m proc \<Rightarrow> 'm test \<Rightarrow> bool" where
  "test_start p s \<longleftrightarrow> s = \<lparr>comm = \<lparr>runs = (), app_task = None, input_q = None, output_q = None, asked = 0\<rparr>,
     proc = p, given = [], taken = [], got = []\<rparr>"

section \<open>The invariant\<close>

definition queued :: "'m list option \<Rightarrow> 'm list" where
  "queued q = (case q of None \<Rightarrow> [] | Some ms \<Rightarrow> ms)"

lemma queued_simps [simp]: "queued None = []" "queued (Some q) = q"
  by (simp_all add: queued_def)

text \<open>
  What was sent is what was taken and what is queued; and what was received and what is
  queued, followed by what the application would still put out, is what the program puts out.
\<close>

definition test_inv :: "'m proc \<Rightarrow> 'm test \<Rightarrow> bool" where
  "test_inv p s \<longleftrightarrow> given s = taken s @ queued (input_q (comm s)) \<and>
     (\<forall>rest. says p (taken s @ rest) = got s @ queued (output_q (comm s)) @ says (proc s) rest)"

text \<open>The calls of the tester move messages only at the ends that are theirs.\<close>

definition same_queues :: "('m, 'app) communicator \<Rightarrow> ('m, 'app) communicator \<Rightarrow> bool" where
  "same_queues c c' \<longleftrightarrow> queued (input_q c') = queued (input_q c) \<and> queued (output_q c') = queued (output_q c)"

lemmas comm_defs = get_future_def input_queue_def output_queue_def set_status_def request_cancel_def

lemma get_future_queues: "same_queues c (snd (get_future c))"
  by (auto simp: same_queues_def comm_defs split: option.splits)

lemma check_task_queues: "check_task c = (r, c') \<Longrightarrow> same_queues c c'"
  using get_future_queues [of c] by (auto simp: check_task_def split: prod.splits)

lemma send_input_queues:
  "send_input m c = (r, c') \<Longrightarrow> queued (output_q c') = queued (output_q c) \<and>
     queued (input_q c') = queued (input_q c) @ (case r of Inl e \<Rightarrow> [] | Inr _ \<Rightarrow> [m])"
proof -
  assume call: "send_input m c = (r, c')"
  obtain q c1 where ck: "check_task c = (q, c1)" by fastforce
  from check_task_queues [OF ck] call ck show ?thesis
    by (cases q) (auto simp: send_input_def py_bind_def input_queue_def same_queues_def split: option.splits)
qed

lemma cancel_and_wait_queues: "cancel_and_wait env c = Some (r, c') \<Longrightarrow> same_queues c c'"
  by (auto simp: cancel_and_wait_def comm_defs same_queues_def)

text \<open>With an application that is suspended, \<open>receive_output\<close> takes one message or none.\<close>

lemma receive_output_queues:
  assumes "receive_output d (quiet t) c = Some (r, c')"
  shows "queued (input_q c') = queued (input_q c) \<and>
    queued (output_q c) = (case r of Inl e \<Rightarrow> [] | Inr m \<Rightarrow> [m]) @ queued (output_q c')"
proof -
  obtain q c1 where ck: "check_task c = (q, c1)" by fastforce
  note same = check_task_queues [OF ck, unfolded same_queues_def]
  show ?thesis
  proof (cases q)
    case (Inl e)
    with assms ck same show ?thesis by (auto simp: receive_output_def)
  next
    case (Inr u)
    obtain ms c2 where out: "output_queue c1 = (ms, c2)" by fastforce
    then have q2: "ms = queued (output_q c1)" "same_queues c1 c2"
      by (auto simp: output_queue_def same_queues_def split: option.splits)
    show ?thesis
    proof (cases ms)
      case Nil
      from assms ck Inr out Nil obtain k where d: "d = Some k"
        by (cases d) (simp_all add: receive_output_def quiet_def Let_def)
      show ?thesis
      proof (cases "is_done (fst (get_future c2))")
        case True
        with assms ck Inr out Nil d have "c' = c2" "\<exists>e. r = Inl e"
          by (auto simp: receive_output_def quiet_def Let_def timed_some split: sum.splits)
        with Nil q2 same show ?thesis by (auto simp: same_queues_def)
      next
        case False
        with assms ck Inr out Nil d obtain x where x: "cancel_and_wait (quiet t) c2 = Some (x, c')" "\<exists>e. r = Inl e"
          by (auto simp: receive_output_def quiet_def Let_def timed_some split: option.splits sum.splits)
        with cancel_and_wait_queues [OF x(1)] Nil q2 same show ?thesis by (auto simp: same_queues_def)
      qed
    next
      case (Cons m rest)
      with assms ck Inr out have "r = Inr m" "c' = c2\<lparr>output_q := Some rest\<rparr>"
        by (cases d; simp add: receive_output_def timed_some timed_none)+
      with Cons q2 same show ?thesis by (simp add: same_queues_def)
    qed
  qed
qed

lemma receive_nothing_queues:
  assumes "receive_nothing [] c = (r, c')"
  shows "same_queues c c'"
proof -
  obtain q c1 where ck: "check_task c = (q, c1)" by fastforce
  from check_task_queues [OF ck] assms ck show ?thesis
    by (cases q) (auto simp: receive_nothing_def py_bind_def output_queue_def same_queues_def split: option.splits)
qed

lemma stop_queues: "comm_stop b e c = (r, c') \<Longrightarrow> same_queues c c'"
  by (auto simp: comm_stop_def comm_defs same_queues_def split: option.splits if_splits)

lemma wait_queues:
  assumes "comm_wait d (quiet t) c = Some (r, c')"
  shows "same_queues c c'"
proof -
  obtain f c1 where e: "ended_by d (quiet t) c = Some (f, c1)"
    using assms by (cases "ended_by d (quiet t) c") (auto simp: comm_wait_def)
  then have "same_queues c c1"
    using get_future_queues [of c]
    by (auto simp: ended_by_def quiet_def set_status_def request_cancel_def same_queues_def
        split: prod.splits if_splits option.splits)
  moreover have "same_queues c1 c'"
  proof (cases "is_done (fst (get_future c1))")
    case True
    with assms e show ?thesis by (auto simp: comm_wait_def Let_def same_queues_def)
  next
    case False
    with assms e obtain x where "cancel_and_wait (quiet t) c1 = Some (x, c')"
      by (auto simp: comm_wait_def Let_def split: option.splits sum.splits)
    then show ?thesis by (rule cancel_and_wait_queues)
  qed
  ultimately show ?thesis by (simp add: same_queues_def)
qed

lemma test_inv_same:
  assumes "test_inv p s" and "same_queues (comm s) c"
  shows "test_inv p (s\<lparr>comm := c\<rparr>)"
  using assms by (simp add: test_inv_def same_queues_def)

lemma test_inv_do:
  assumes "test_inv p s" and "test_do a s = Some (r, s')"
  shows "test_inv p s'"
proof (cases a)
  case (SendInput m)
  obtain q c where sent: "send_input m (comm s) = (q, c)" by fastforce
  from send_input_queues [OF sent] assms SendInput sent show ?thesis
    by (cases q) (auto simp: test_inv_def)
next
  case ReceiveOutput
  with assms(2) obtain q c where rec: "receive_output None (quiet None) (comm s) = Some (q, c)"
    by (cases "receive_output None (quiet None) (comm s)") auto
  from receive_output_queues [OF rec] assms ReceiveOutput rec show ?thesis
    by (cases q) (auto simp: test_inv_def)
next
  case TimesOut
  with assms(2) obtain e c where rec: "receive_output (Some 1) (quiet (suspended (proc s))) (comm s) = Some (Inl e, c)"
    by (auto split: if_splits option.splits sum.splits)
  from receive_output_queues [OF rec] have "same_queues (comm s) c" by (simp add: same_queues_def)
  with test_inv_same [OF assms(1)] TimesOut rec assms(2) show ?thesis by (auto split: if_splits)
next
  case LooksEmpty
  obtain q c where look: "receive_nothing [] (comm s) = (q, c)" by fastforce
  from test_inv_same [OF assms(1) receive_nothing_queues [OF look]] LooksEmpty look assms(2) show ?thesis
    by (auto split: sum.splits)
next
  case (Stops e)
  obtain q c where stop: "comm_stop False e (comm s) = (q, c)" by fastforce
  from test_inv_same [OF assms(1) stop_queues [OF stop]] Stops stop assms(2) show ?thesis
    by (auto split: sum.splits)
next
  case Waits
  with assms(2) obtain q c where wait: "comm_wait (Some 1) (quiet (suspended (proc s))) (comm s) = Some (q, c)"
    by (cases "comm_wait (Some 1) (quiet (suspended (proc s))) (comm s)") auto
  from test_inv_same [OF assms(1) wait_queues [OF wait]] Waits wait assms(2) show ?thesis
    by (auto split: sum.splits)
next
  case Takes
  with assms(2) obtain f t m q where at: "proc s = Receive f t" "input_q (comm s) = Some (m # q)"
    "s' = s\<lparr>comm := (comm s)\<lparr>input_q := Some q\<rparr>, proc := f m, taken := taken s @ [m]\<rparr>"
    by (auto split: if_splits proc.splits option.splits list.splits)
  from assms(1) at(1,2) have "says p (taken s @ m # rest) = got s @ queued (output_q (comm s)) @ says (f m) rest" for rest
    by (simp add: test_inv_def)
  with assms(1) at show ?thesis by (simp add: test_inv_def)
next
  case Puts
  with assms(2) obtain m q k where at: "proc s = Send m k" "output_q (comm s) = Some q"
    "s' = s\<lparr>comm := (comm s)\<lparr>output_q := Some (q @ [m])\<rparr>, proc := k\<rparr>"
    by (auto split: if_splits proc.splits option.splits)
  with assms(1) show ?thesis by (simp add: test_inv_def)
next
  case Wakes
  with assms(2) obtain k t where "proc s = Awaits k t" "s' = s\<lparr>proc := k\<rparr>"
    by (auto split: if_splits proc.splits)
  with assms(1) show ?thesis by (simp add: test_inv_def)
next
  case Finishes
  with assms show ?thesis
    by (auto simp: set_status_def same_queues_def intro: test_inv_same split: if_splits proc.splits)
next
  case GetsCancelled
  with assms show ?thesis
    by (auto simp: set_status_def same_queues_def intro: test_inv_same split: if_splits)
qed

lemma test_inv_start: "test_start p s \<Longrightarrow> test_inv p s"
  by (simp add: test_start_def test_inv_def)

lemma test_inv_step: "test_inv p s \<Longrightarrow> test_step s s' \<Longrightarrow> test_inv p s'"
  by (elim test_stepE) (rule test_inv_do)

interpretation whole_test: invariant_system test_step "test_inv p" "test_start p" for p
  by unfold_locales (fact test_inv_step, fact test_inv_start)

text \<open>C38: a test observes exactly what the application does. In every history of a communicator and
  its application: the application reads what \<open>send_input\<close> accepted, in order; what
  \<open>receive_output\<close> has returned is a prefix of what the application puts out for the accepted
  input; and whenever the application waits for more input with nothing queued, so that
  \<open>receive_output\<close> can only time out, the tester has received all of it.\<close>

theorem test_observes_application:
  assumes "reach (test_start p) test_step s"
  shows "(\<exists>rest. given s = taken s @ rest) \<and> (\<exists>rest. says p (given s) = got s @ rest) \<and>
    ((\<exists>f t. proc s = Receive f t) \<and> queued (input_q (comm s)) = [] \<and> queued (output_q (comm s)) = [] \<longrightarrow>
       got s = says p (given s))"
proof -
  have inv: "given s = taken s @ queued (input_q (comm s))"
    "says p (taken s @ rest) = got s @ queued (output_q (comm s)) @ says (proc s) rest" for rest
    using whole_test.invariant [OF assms] by (simp_all add: test_inv_def)
  show ?thesis unfolding inv(1) inv(2) by auto
qed

fun test_run :: "'m test_op list \<Rightarrow> 'm test \<Rightarrow> 'm test option" where
  "test_run [] s = Some s"
| "test_run (a # as) s = (case test_do a s of None \<Rightarrow> None | Some (r, s') \<Rightarrow> test_run as s')"

lemma test_run_reach:
  "test_run as s = Some s' \<Longrightarrow> reach (test_start p) test_step s \<Longrightarrow> reach (test_start p) test_step s'"
proof (induction as arbitrary: s)
  case (Cons a as)
  then obtain r u where u: "test_do a s = Some (r, u)" "test_run as u = Some s'"
    by (auto split: option.splits)
  from test_step.intros [OF u(1)] Cons.prems(2) have "reach (test_start p) test_step u" by (rule reach_step [rotated])
  with Cons.IH [OF u(2)] show ?case .
qed simp

text \<open>An application that answers every message, and a test of it.\<close>

definition answering :: "nat proc" where
  "answering = Receive (\<lambda>m. Send (m + 1) (Receive (\<lambda>k. Send (k + 2) (Ends Returned)) Cancelled)) Cancelled"

definition new_test :: "nat test" where
  "new_test = \<lparr>comm = \<lparr>runs = (), app_task = None, input_q = None, output_q = None, asked = 0\<rparr>,
     proc = answering, given = [], taken = [], got = []\<rparr>"

lemma answered:
  "\<exists>s. test_run [SendInput 3, Takes, Puts, LooksEmpty, ReceiveOutput] new_test = Some s \<and> given s = [3] \<and> got s = [4] \<and>
     (\<exists>f t. proc s = Receive f t) \<and> queued (input_q (comm s)) = [] \<and> queued (output_q (comm s)) = []"
  by (simp add: new_test_def answering_def send_input_def check_task_def comm_defs py_bind_def
      receive_nothing_def receive_output_def timed_none)

theorem test_observes_application_witness:
  "\<exists>s. reach (test_start answering) test_step s \<and> got s = [4] \<and> got s = says answering (given s)"
proof -
  obtain s where s: "test_run [SendInput 3, Takes, Puts, LooksEmpty, ReceiveOutput] new_test = Some s" "given s = [3]"
    "got s = [4]" "\<exists>f t. proc s = Receive f t" "queued (input_q (comm s)) = []" "queued (output_q (comm s)) = []"
    using answered by blast
  have "reach (test_start answering) test_step new_test"
    by (rule reach_init) (simp add: test_start_def new_test_def)
  from test_run_reach [OF s(1) this] have r: "reach (test_start answering) test_step s" .
  with test_observes_application [OF this] s show ?thesis by blast
qed

end
