(* ===== verification/Server_Messages.thy ===== *)
theory Server_Messages
  imports Testing_Histories Server_Properties
begin

text \<open>
  \<open>StatelessServer\<close> together with the applications in its pool: requests put messages into the
  queues that \<open>get_or_create_application_instance\<close> returns, the tasks read them through
  \<open>input_queue.get\<close> and send through the closure that calls \<open>application_send(scope, message)\<close>.
  Every operation on the pool is one of Server_Properties; an application is an interaction tree.
\<close>

section \<open>The server with its applications\<close>

text \<open>
  \<open>wired\<close>: the queue and the scope in the closures of a task. \<open>sent\<close>: the calls of
  \<open>application_send\<close>, with the task that made them. \<open>posted\<close>: what requests have put for a
  scope id since its instance was made; \<open>read_by\<close>: what a task has read.
\<close>

record ('id, 'sc, 't, 'app, 'm) site =
  site_pool :: "('id, 'sc, 't, 'app) server"
  mail :: "queue \<Rightarrow> 'm list"
  wired :: "tsk \<Rightarrow> queue \<times> 'sc"
  life :: "tsk \<Rightarrow> 'm proc"
  sent :: "(tsk \<times> 'sc \<times> 'm) list"
  posted :: "'id \<Rightarrow> 'm list"
  read_by :: "tsk \<Rightarrow> 'm list"

text \<open>
  \<open>Post\<close> is a request the way the docstring of the class describes it: it gets the queue for a
  scope id and puts a message, without suspending in between. The other operations: deletion by
  user code, a pass of the checker, and the steps of a task.
\<close>

datatype ('id, 'sc, 't, 'm) site_op =
    Post 'id 'sc 't 'm | Deletes 'id | Checks
  | Reads tsk | Sends tsk | Continues tsk | Finishes tsk | IsCancelled tsk

text \<open>A new instance: its task runs \<open>behaves app scope\<close>, what the application does.\<close>

definition born :: "('app \<Rightarrow> 'sc \<Rightarrow> 'm proc) \<Rightarrow> 'id \<Rightarrow> ('sc, 't, 'app) details \<Rightarrow>
    ('id, 'sc, 't, 'app, 'm) site \<Rightarrow> ('id, 'sc, 't, 'app, 'm) site" where
  "born behaves sid d s = s\<lparr>mail := (mail s)(input_queue d := []), wired := (wired s)(fut d := (input_queue d, scope d)),
     life := (life s)(fut d := behaves (serves d) (scope d)), posted := (posted s)(sid := []),
     read_by := (read_by s)(fut d := [])\<rparr>"

definition put_message :: "'id \<Rightarrow> queue \<Rightarrow> 'm \<Rightarrow> ('id, 'sc, 't, 'app, 'm) site \<Rightarrow> ('id, 'sc, 't, 'app, 'm) site" where
  "put_message sid q m s = s\<lparr>mail := (mail s)(q := mail s q @ [m]), posted := (posted s)(sid := posted s sid @ [m])\<rparr>"

definition on_pool :: "('id, 'sc, 't) pool_op \<Rightarrow>
    ('id, 'sc, 't :: linorder, ('sc, 'rc, 'sn, 'r) application, 'm) site \<Rightarrow>
    ('id, 'sc, 't, ('sc, 'rc, 'sn, 'r) application, 'm) site" where
  "on_pool p s = s\<lparr>site_pool := pool_do p (site_pool s)\<rparr>"

definition running :: "('id, 'sc, 't, 'app, 'm) site \<Rightarrow> tsk \<Rightarrow> bool" where
  "running s f \<longleftrightarrow> f < next_id (site_pool s) \<and> tasks (site_pool s) f = TPending"

fun site_do :: "(('sc, 'rc, 'sn, 'r) application \<Rightarrow> 'sc \<Rightarrow> 'm proc) \<Rightarrow> ('id, 'sc, 't, 'm) site_op \<Rightarrow>
    ('id, 'sc, 't :: linorder, ('sc, 'rc, 'sn, 'r) application, 'm) site \<Rightarrow>
    ('id, 'sc, 't, ('sc, 'rc, 'sn, 'r) application, 'm) site option" where
  "site_do behaves (Post sid sc now m) s = (case serve sid sc now (site_pool s) of
     (Inl e, p) \<Rightarrow> Some (s\<lparr>site_pool := p\<rparr>)
   | (Inr q, p) \<Rightarrow> Some (put_message sid q m (case (dict_get (instances (site_pool s)) sid, dict_get (instances p) sid) of
        (None, Some d) \<Rightarrow> born behaves sid d (s\<lparr>site_pool := p\<rparr>)
      | _ \<Rightarrow> s\<lparr>site_pool := p\<rparr>)))"
| "site_do behaves (Deletes sid) s = Some (on_pool (Drop sid) s)"
| "site_do behaves Checks s = Some (on_pool Check s)"
| "site_do behaves (Reads f) s = (if \<not> running s f then None else
     (case (life s f, mail s (fst (wired s f))) of
        (Receive g t, m # ms) \<Rightarrow> Some (s\<lparr>mail := (mail s)(fst (wired s f) := ms), life := (life s)(f := g m),
           read_by := (read_by s)(f := read_by s f @ [m])\<rparr>)
      | _ \<Rightarrow> None))"
| "site_do behaves (Sends f) s = (if \<not> running s f then None else
     (case life s f of
        Send m p \<Rightarrow> Some (s\<lparr>life := (life s)(f := p), sent := sent s @ [(f, snd (wired s f), m)]\<rparr>)
      | _ \<Rightarrow> None))"
| "site_do behaves (Continues f) s = (if \<not> running s f then None else
     (case life s f of Awaits p t \<Rightarrow> Some (s\<lparr>life := (life s)(f := p)\<rparr>) | _ \<Rightarrow> None))"
| "site_do behaves (Finishes f) s = (if \<not> running s f then None else
     (case life s f of
        Ends Returned \<Rightarrow> Some (on_pool (EndTask f None) s)
      | Ends (Raised e) \<Rightarrow> Some (on_pool (EndTask f (Some e)) s)
      | _ \<Rightarrow> None))"
| "site_do behaves (IsCancelled f) s = (if \<not> running s f \<or> suspended (life s f) = None then None
     else Some (on_pool (CancelTask f) s))"

inductive site_step :: "(('sc, 'rc, 'sn, 'r) application \<Rightarrow> 'sc \<Rightarrow> 'm proc) \<Rightarrow>
    ('id, 'sc, 't :: linorder, ('sc, 'rc, 'sn, 'r) application, 'm) site \<Rightarrow>
    ('id, 'sc, 't, ('sc, 'rc, 'sn, 'r) application, 'm) site \<Rightarrow> bool" for behaves where
  "site_do behaves a s = Some s' \<Longrightarrow> site_step behaves s s'"

inductive_cases site_stepE: "site_step behaves s s'"

definition site_start :: "'app \<Rightarrow> ('id, 'sc, 't, 'app, 'm) site \<Rightarrow> bool" where
  "site_start a s \<longleftrightarrow> (\<exists>m \<ge> 0. site_pool s = pool_start a m) \<and> sent s = []"

section \<open>What the operations do to the pool\<close>

lemma pool_only_shrinks:
  assumes "pool_inv p" and "\<And>sid sc now. x \<noteq> Serve sid sc now"
  shows "set (instances (pool_do x p)) \<subseteq> set (instances p) \<and> next_id (pool_do x p) = next_id p \<and>
    app (pool_do x p) = app p"
proof (cases x)
  case (Drop sid)
  then show ?thesis
    by (auto simp: delete_application_instance_def dict_del_filter split: option.split)
next
  case Check
  have "dict_ok (instances p)" using pool_invD(1) [OF assms(1)] by (simp add: pool_ok_def)
  from Check checker_pass_effect [OF this] pool_invD(4) [OF assms(1)] show ?thesis by auto
qed (use assms(2) in auto)

lemma serve_known:
  "dict_get (instances p) sid = Some d \<Longrightarrow>
   serve sid sc now p = (Inr (input_queue d), p\<lparr>instances := touch sid now (instances p)\<rparr>)"
  by (simp add: get_or_create_application_instance_def)

lemma serve_unknown:
  assumes "pool_inv p" and "dict_get (instances p) sid = None"
    and "d = \<lparr>input_queue = next_id p, fut = next_id p, scope = sc, last_used = now,
      serves = guarantee_single_callable (app p)\<rparr>"
  shows "\<exists>t. serve sid sc now p = (Inr (next_id p), t) \<and> dict_get (instances t) sid = Some d \<and>
    set (instances t) \<subseteq> insert (sid, d) (set (instances p)) \<and> next_id t = Suc (next_id p) \<and> app t = app p"
proof -
  obtain u where u: "evict p = (Inr (), u)" "evict_spec p u"
    using evict_total [OF pool_invD(1,2) [OF assms(1)]] by blast
  note same = evict_spec_fields [OF u(2)]
  have fresh: "dict_set sid y (instances u) = instances u @ [(sid, y)]" "dict_get (instances u) sid = None" for y
    using evict_fresh [OF u(2) assms(2)] by blast+
  let ?t = "snd (create_instance guarantee_single_callable sid sc now u)"
  have "serve sid sc now p = (Inr (next_id p), ?t)"
    using u(1) assms(2) same by (simp add: get_or_create_application_instance_def create_instance_def)
  moreover have "instances ?t = instances u @ [(sid, d)]" "next_id ?t = Suc (next_id p)" "app ?t = app p"
    by (simp_all add: create_instance_def fresh(1) same assms(3))
  ultimately show ?thesis using same(6) fresh(2) by (intro exI [of _ ?t]) (auto simp: map_add_def)
qed

lemma one_task_each:
  assumes "pool_ok p" and "(i, e) \<in> set (instances p)" and "(j, d) \<in> set (instances p)" and "fut e = fut d"
  shows "i = j \<and> e = d"
proof -
  have "inj_on (fut \<circ> snd) (set (instances p))" using assms(1) by (simp add: pool_ok_def distinct_map)
  from inj_onD [OF this _ assms(2,3)] assms(4) show ?thesis by simp
qed

section \<open>The invariant\<close>

text \<open>
  \<open>task_ok\<close>: what a task has sent and will send is what its application sends for what it has
  read and will read. \<open>entry_ok\<close>: an instance is wired to its own queue, which holds what was posted
  and not yet read.
\<close>

definition outs :: "('id, 'sc, 't, 'app, 'm) site \<Rightarrow> tsk \<Rightarrow> 'm list" where
  "outs s f = map (\<lambda>x. snd (snd x)) (filter (\<lambda>x. fst x = f) (sent s))"

definition task_ok :: "(('sc, 'rc, 'sn, 'r) application \<Rightarrow> 'sc \<Rightarrow> 'm proc) \<Rightarrow>
    ('id, 'sc, 't, ('sc, 'rc, 'sn, 'r) application, 'm) site \<Rightarrow> tsk \<Rightarrow> bool" where
  "task_ok behaves s f \<longleftrightarrow> fst (wired s f) = f \<and>
     (\<forall>rest. says (behaves (guarantee_single_callable (app (site_pool s))) (snd (wired s f))) (read_by s f @ rest) =
        outs s f @ says (life s f) rest)"

definition entry_ok :: "('id, 'sc, 't, ('sc, 'rc, 'sn, 'r) application, 'm) site \<Rightarrow> 'id \<Rightarrow>
    ('sc, 't, ('sc, 'rc, 'sn, 'r) application) details \<Rightarrow> bool" where
  "entry_ok s sid d \<longleftrightarrow> wired s (fut d) = (input_queue d, scope d) \<and>
     serves d = guarantee_single_callable (app (site_pool s)) \<and>
     posted s sid = read_by s (fut d) @ mail s (input_queue d)"

definition sent_ok :: "('id, 'sc, 't, 'app, 'm) site \<Rightarrow> bool" where
  "sent_ok s \<longleftrightarrow> (\<forall>x \<in> set (sent s). fst x < next_id (site_pool s) \<and> fst (snd x) = snd (wired s (fst x)))"

definition site_inv :: "(('sc, 'rc, 'sn, 'r) application \<Rightarrow> 'sc \<Rightarrow> 'm proc) \<Rightarrow> ('sc, 'rc, 'sn, 'r) application \<Rightarrow>
    ('id, 'sc, 't :: linorder, ('sc, 'rc, 'sn, 'r) application, 'm) site \<Rightarrow> bool" where
  "site_inv behaves a s \<longleftrightarrow> pool_inv (site_pool s) \<and> app (site_pool s) = a \<and> sent_ok s \<and>
     (\<forall>f < next_id (site_pool s). task_ok behaves s f) \<and>
     (\<forall>(sid, d) \<in> set (instances (site_pool s)). entry_ok s sid d)"

lemma site_invD:
  assumes "site_inv behaves a s"
  shows "pool_inv (site_pool s)" "app (site_pool s) = a" "sent_ok s"
    "\<And>f. f < next_id (site_pool s) \<Longrightarrow> task_ok behaves s f"
    "\<And>sid d. (sid, d) \<in> set (instances (site_pool s)) \<Longrightarrow> entry_ok s sid d"
    "\<And>sid d. (sid, d) \<in> set (instances (site_pool s)) \<Longrightarrow> fut d < next_id (site_pool s) \<and> input_queue d = fut d"
proof -
  show inv: "pool_inv (site_pool s)" "app (site_pool s) = a" "sent_ok s"
    using assms by (simp_all add: site_inv_def)
  show task: "task_ok behaves s f" if "f < next_id (site_pool s)" for f
    using that assms by (simp add: site_inv_def)
  show entry: "entry_ok s sid d" if "(sid, d) \<in> set (instances (site_pool s))" for sid d
    using that assms by (auto simp: site_inv_def)
  show "fut d < next_id (site_pool s) \<and> input_queue d = fut d" if at: "(sid, d) \<in> set (instances (site_pool s))" for sid d
  proof -
    have "fut d < next_id (site_pool s)" using pool_invD(1) [OF inv(1)] at by (auto simp: pool_ok_def)
    with task [OF this] entry [OF at] show ?thesis by (simp add: task_ok_def entry_ok_def)
  qed
qed

text \<open>Changes of the pool alone.\<close>

lemma site_inv_pool:
  assumes "site_inv behaves a s" and "\<And>sid sc now. x \<noteq> Serve sid sc now"
  shows "site_inv behaves a (on_pool x s)"
proof -
  note inv = site_invD [OF assms(1)]
  note less = pool_only_shrinks [OF inv(1) assms(2)]
  have at: "site_pool (on_pool x s) = pool_do x (site_pool s)" "sent (on_pool x s) = sent s"
    "wired (on_pool x s) = wired s" "life (on_pool x s) = life s" "read_by (on_pool x s) = read_by s"
    "mail (on_pool x s) = mail s" "posted (on_pool x s) = posted s" by (simp_all add: on_pool_def)
  have "pool_inv (pool_do x (site_pool s))" by (rule pool_inv_step [OF inv(1) pool_act])
  moreover have "task_ok behaves (on_pool x s) f = task_ok behaves s f" for f
    using less by (simp add: task_ok_def outs_def at)
  moreover have "entry_ok (on_pool x s) sid d = entry_ok s sid d" for sid d
    using less by (simp add: entry_ok_def at)
  moreover have "sent_ok (on_pool x s)" using inv(3) less by (simp add: sent_ok_def at)
  ultimately show ?thesis using inv(2,4,5) less unfolding site_inv_def at by auto
qed

text \<open>A request for a known scope id: the message goes to the end of its queue.\<close>

lemma site_inv_known:
  assumes inv: "site_inv behaves a s" and d: "dict_get (instances (site_pool s)) sid = Some d"
    and p: "p = (site_pool s)\<lparr>instances := touch sid now (instances (site_pool s))\<rparr>"
  shows "site_inv behaves a (put_message sid (input_queue d) m (s\<lparr>site_pool := p\<rparr>))"
proof -
  note old = site_invD [OF inv]
  obtain s' where s': "s' = put_message sid (input_queue d) m (s\<lparr>site_pool := p\<rparr>)" by simp
  have at: "site_pool s' = p" "sent s' = sent s" "wired s' = wired s" "life s' = life s" "read_by s' = read_by s"
    "mail s' = (mail s)(input_queue d := mail s (input_queue d) @ [m])" "posted s' = (posted s)(sid := posted s sid @ [m])"
    "next_id p = next_id (site_pool s)" "app p = app (site_pool s)" by (simp_all add: s' put_message_def p)
  have here: "(sid, d) \<in> set (instances (site_pool s))" using d by (rule map_of_SomeD)
  have unique: "dict_ok (instances (site_pool s))" using pool_invD(1) [OF old(1)] by (simp add: pool_ok_def)
  have "entry_ok s' i e'" if e': "(i, e') \<in> set (instances p)" for i e'
  proof -
    from e' obtain e where e: "(i, e) \<in> set (instances (site_pool s))"
      "e' = e \<or> e' = e\<lparr>last_used := now\<rparr>" by (auto simp: p touch_def split: if_splits)
    have ok: "entry_ok s i e'" using old(5) [OF e(1)] e(2) by (auto simp: entry_ok_def)
    have same: "input_queue e' = input_queue e" using e(2) by auto
    show ?thesis
    proof (cases "i = sid")
      case True
      with e(1) d unique have "e = d" by (simp add: dict_ok_def)
      with True ok same show ?thesis by (simp add: entry_ok_def at)
    next
      case False
      have "fut e \<noteq> fut d" using one_task_each [OF pool_invD(1) [OF old(1)] e(1) here] False by blast
      then have "input_queue e' \<noteq> input_queue d" using old(6) [OF e(1)] old(6) [OF here] same by simp
      with False ok show ?thesis by (simp add: entry_ok_def at)
    qed
  qed
  moreover have "pool_inv p"
    using pool_inv_serve [OF old(1), of sid undefined now] serve_known [OF d] p by simp
  moreover have "task_ok behaves s' f = task_ok behaves s f" for f by (simp add: task_ok_def outs_def at)
  moreover have "sent_ok s'" using old(3) by (simp add: sent_ok_def at)
  ultimately have "site_inv behaves a s'" using old(2,4) by (auto simp: site_inv_def at)
  then show ?thesis by (simp add: s')
qed

text \<open>A request for a new one: the message is the first in the queue of a fresh task.\<close>

lemma site_inv_unknown:
  assumes inv: "site_inv behaves a s" and none: "dict_get (instances (site_pool s)) sid = None"
    and d: "d = \<lparr>input_queue = next_id (site_pool s), fut = next_id (site_pool s), scope = sc, last_used = now,
      serves = guarantee_single_callable (app (site_pool s))\<rparr>"
    and p: "pool_inv p" "set (instances p) \<subseteq> insert (sid, d) (set (instances (site_pool s)))"
      "next_id p = Suc (next_id (site_pool s))" "app p = app (site_pool s)"
  shows "site_inv behaves a (put_message sid (input_queue d) m (born behaves sid d (s\<lparr>site_pool := p\<rparr>)))"
proof -
  note old = site_invD [OF inv]
  let ?f = "next_id (site_pool s)"
  obtain s' where s': "s' = put_message sid (input_queue d) m (born behaves sid d (s\<lparr>site_pool := p\<rparr>))" by simp
  have at: "site_pool s' = p" "sent s' = sent s" "wired s' = (wired s)(?f := (?f, sc))"
    "life s' = (life s)(?f := behaves (guarantee_single_callable (app (site_pool s))) sc)"
    "read_by s' = (read_by s)(?f := [])" "mail s' = (mail s)(?f := [m])" "posted s' = (posted s)(sid := [m])"
    by (simp_all add: s' put_message_def born_def d)
  have fresh: "fst x \<noteq> ?f" if "x \<in> set (sent s)" for x
    using that old(3) by (auto simp: sent_ok_def)
  have "task_ok behaves s' f" if f: "f < Suc ?f" for f
  proof (cases "f = ?f")
    case True
    have "filter (\<lambda>x. fst x = ?f) (sent s) = []" using fresh by (auto simp: filter_empty_conv)
    with True show ?thesis by (simp add: task_ok_def outs_def at p(4))
  next
    case False
    with f old(4) [of f] show ?thesis by (simp add: task_ok_def outs_def at p(4))
  qed
  moreover have "entry_ok s' i e" if "(i, e) \<in> set (instances p)" for i e
  proof (cases "(i, e) = (sid, d)")
    case True
    then show ?thesis by (simp add: entry_ok_def at p(4)) (simp add: d)
  next
    case False
    with that p(2) have e: "(i, e) \<in> set (instances (site_pool s))" by blast
    with none have "i \<noteq> sid" by (force simp: map_of_eq_None_iff)
    with old(5) [OF e] old(6) [OF e] show ?thesis by (simp add: entry_ok_def at p(4))
  qed
  moreover have "sent_ok s'" using old(3) fresh by (fastforce simp: sent_ok_def at p(3))
  ultimately have "site_inv behaves a s'" using old(2) p by (auto simp: site_inv_def at)
  then show ?thesis by (simp add: s')
qed

text \<open>Steps of one task.\<close>

lemma site_inv_task:
  assumes inv: "site_inv behaves a s" and run: "running s f"
    and s': "site_pool s' = site_pool s" "wired s' = wired s" "life s' = (life s)(f := k)" "posted s' = posted s"
      "read_by s' = (read_by s)(f := read_by s f @ new)" "sent s' = sent s @ map (\<lambda>m. (f, snd (wired s f), m)) put"
      "mail s' = (mail s)(fst (wired s f) := rest)" "mail s (fst (wired s f)) = new @ rest"
    and says: "\<And>ms. says (life s f) (new @ ms) = put @ says k ms"
  shows "site_inv behaves a s'"
proof -
  note old = site_invD [OF inv]
  have f: "f < next_id (site_pool s)" using run by (simp add: running_def)
  have wire: "fst (wired s f) = f" using old(4) [OF f] by (simp add: task_ok_def)
  have out: "outs s' g = (if g = f then outs s g @ put else outs s g)" for g
    by (simp add: outs_def s'(6) comp_def)
  have "task_ok behaves s' g" if "g < next_id (site_pool s)" for g
  proof (cases "g = f")
    case True
    have "says (behaves (guarantee_single_callable (app (site_pool s))) (snd (wired s f))) (read_by s f @ new @ ms) =
        outs s f @ put @ says k ms" for ms
      using old(4) [OF f] says [of ms] by (simp add: task_ok_def)
    with True wire show ?thesis by (simp add: task_ok_def s' out)
  next
    case False
    with old(4) [OF that] show ?thesis by (simp add: task_ok_def s' out)
  qed
  moreover have "entry_ok s' i e" if e: "(i, e) \<in> set (instances (site_pool s))" for i e
    using old(5) [OF e] old(6) [OF e] wire s'(8) by (auto simp: entry_ok_def s')
  moreover have "sent_ok s'" using old(3) f by (auto simp: sent_ok_def s')
  ultimately show ?thesis using old(1,2) by (auto simp: site_inv_def s'(1))
qed

lemma site_inv_do:
  assumes inv: "site_inv behaves a s" and act: "site_do behaves x s = Some s'"
  shows "site_inv behaves a s'"
proof (cases x)
  case (Post sid sc now m)
  note pool = site_invD(1) [OF inv]
  show ?thesis
  proof (cases "dict_get (instances (site_pool s)) sid")
    case (Some d)
    with act Post serve_known [OF Some, of sc now] site_inv_known [OF inv Some refl, where m = m and now = now] show ?thesis by auto
  next
    case None
    let ?d = "\<lparr>input_queue = next_id (site_pool s), fut = next_id (site_pool s), scope = sc, last_used = now,
      serves = guarantee_single_callable (app (site_pool s))\<rparr>"
    obtain p where p: "serve sid sc now (site_pool s) = (Inr (next_id (site_pool s)), p)"
      "dict_get (instances p) sid = Some ?d" "set (instances p) \<subseteq> insert (sid, ?d) (set (instances (site_pool s)))"
      "next_id p = Suc (next_id (site_pool s))" "app p = app (site_pool s)"
      using serve_unknown [OF pool None refl] by blast
    have "pool_inv p" using pool_inv_serve [OF pool, of sid sc now] p(1) by simp
    from site_inv_unknown [OF inv None refl this p(3-5), of m] act Post None p(1,2) show ?thesis by simp
  qed
next
  case (Reads f)
  with act obtain g t m ms where at: "running s f" "life s f = Receive g t" "mail s (fst (wired s f)) = m # ms"
    "s' = s\<lparr>mail := (mail s)(fst (wired s f) := ms), life := (life s)(f := g m),
       read_by := (read_by s)(f := read_by s f @ [m])\<rparr>"
    by (auto split: if_splits proc.splits list.splits)
  show ?thesis
    by (rule site_inv_task [OF inv at(1), of s' "g m" "[m]" "[]" ms]) (simp_all add: at(2-4))
next
  case (Sends f)
  with act obtain m k where at: "running s f" "life s f = Send m k"
    "s' = s\<lparr>life := (life s)(f := k), sent := sent s @ [(f, snd (wired s f), m)]\<rparr>"
    by (auto split: if_splits proc.splits)
  show ?thesis
    by (rule site_inv_task [OF inv at(1), of s' k "[]" "[m]" "mail s (fst (wired s f))"]) (simp_all add: at(2,3))
next
  case (Continues f)
  with act obtain k t where at: "running s f" "life s f = Awaits k t" "s' = s\<lparr>life := (life s)(f := k)\<rparr>"
    by (auto split: if_splits proc.splits)
  show ?thesis
    by (rule site_inv_task [OF inv at(1), of s' k "[]" "[]" "mail s (fst (wired s f))"]) (simp_all add: at(2,3))
qed (use act site_inv_pool [OF inv] in \<open>auto split: if_splits proc.splits tstat.splits\<close>)

lemma site_inv_start: "site_start a s \<Longrightarrow> site_inv behaves a s"
  by (auto simp: site_start_def site_inv_def pool_start_def sent_ok_def intro!: pool_inv_init) 
    (auto simp: pool_init_def pool_start_def)

lemma site_inv_step: "site_inv behaves a s \<Longrightarrow> site_step behaves s s' \<Longrightarrow> site_inv behaves a s'"
  by (elim site_stepE) (rule site_inv_do)

interpretation site: invariant_system "site_step behaves" "site_inv behaves a" "site_start a" for behaves a
  by unfold_locales (fact site_inv_step, fact site_inv_start)

section \<open>Messages reach their instance\<close>

text \<open>C23: every message goes to the instance of its scope id, and every output is attributed to its scope.
  In every history of a server whose limit is not negative, for every instance in the pool: its task
  runs the single-callable application with the scope of the request that made it; the task has read
  a prefix of what requests posted for that scope id since then, in order, and the rest is in its
  queue; what it has passed to \<open>application_send\<close>, all of it with that scope, is a prefix of what the
  application sends when it is run on these messages, and all of it when it waits for more with
  nothing queued. No two instances share a task or a queue.\<close>

theorem messages_reach_their_instance:
  assumes "reach (site_start a) (site_step behaves) s" and "dict_get (instances (site_pool s)) sid = Some d"
  shows "posted s sid = read_by s (fut d) @ mail s (input_queue d) \<and>
    (\<exists>rest. says (behaves (guarantee_single_callable a) (scope d)) (posted s sid) =
       map (\<lambda>x. snd (snd x)) (filter (\<lambda>x. fst x = fut d) (sent s)) @ rest \<and>
       ((\<exists>g t. life s (fut d) = Receive g t) \<and> mail s (input_queue d) = [] \<longrightarrow> rest = [])) \<and>
    (\<forall>x \<in> set (sent s). fst x = fut d \<longrightarrow> fst (snd x) = scope d) \<and>
    (\<forall>i e. dict_get (instances (site_pool s)) i = Some e \<and> i \<noteq> sid \<longrightarrow> fut e \<noteq> fut d \<and> input_queue e \<noteq> input_queue d)"
proof -
  have inv: "site_inv behaves a s" by (rule site.invariant [OF assms(1)])
  note old = site_invD [OF inv]
  have here: "(sid, d) \<in> set (instances (site_pool s))" using assms(2) by (rule map_of_SomeD)
  have wire: "wired s (fut d) = (input_queue d, scope d)" "posted s sid = read_by s (fut d) @ mail s (input_queue d)"
    using old(5) [OF here] by (simp_all add: entry_ok_def)
  have "task_ok behaves s (fut d)" using old(4) old(6) [OF here] by blast
  then have run: "says (behaves (guarantee_single_callable a) (scope d)) (posted s sid) =
      outs s (fut d) @ says (life s (fut d)) (mail s (input_queue d))"
    by (simp add: task_ok_def wire old(2))
  show ?thesis
  proof (intro conjI allI ballI impI)
    show "posted s sid = read_by s (fut d) @ mail s (input_queue d)" by (rule wire(2))
    show "\<exists>rest. says (behaves (guarantee_single_callable a) (scope d)) (posted s sid) =
       map (\<lambda>x. snd (snd x)) (filter (\<lambda>x. fst x = fut d) (sent s)) @ rest \<and>
       ((\<exists>g t. life s (fut d) = Receive g t) \<and> mail s (input_queue d) = [] \<longrightarrow> rest = [])"
      using run by (intro exI [of _ "says (life s (fut d)) (mail s (input_queue d))"]) (auto simp: outs_def)
  next
    fix x assume "x \<in> set (sent s)" "fst x = fut d"
    with old(3) wire(1) show "fst (snd x) = scope d" by (fastforce simp: sent_ok_def)
  next
    fix i e assume e: "dict_get (instances (site_pool s)) i = Some e \<and> i \<noteq> sid"
    then have at: "(i, e) \<in> set (instances (site_pool s))" by (simp add: map_of_SomeD)
    from one_task_each [OF pool_invD(1) [OF old(1)] at here] e show "fut e \<noteq> fut d" by blast
    with old(6) [OF at] old(6) [OF here] show "input_queue e \<noteq> input_queue d" by simp
  qed
qed

text \<open>Two requests for one scope id and one for another, to an application that answers with the sum.\<close>

definition adding :: "(unit, unit, unit, unit) application \<Rightarrow> unit \<Rightarrow> nat proc" where
  "adding a sc = Receive (\<lambda>m. Receive (\<lambda>k. Send (m + k) (Ends Returned)) Cancelled) Cancelled"

definition new_site :: "(nat, unit, int, (unit, unit, unit, unit) application, nat) site" where
  "new_site = \<lparr>site_pool = pool_start demo_app 1, mail = (\<lambda>_. []), wired = (\<lambda>_. (0, ())), life = (\<lambda>_. Ends Returned),
     sent = [], posted = (\<lambda>_. []), read_by = (\<lambda>_. [])\<rparr>"

fun site_run :: "(nat, unit, int, nat) site_op list \<Rightarrow> (nat, unit, int, (unit, unit, unit, unit) application, nat) site \<Rightarrow>
    (nat, unit, int, (unit, unit, unit, unit) application, nat) site option" where
  "site_run [] s = Some s"
| "site_run (x # xs) s = (case site_do adding x s of None \<Rightarrow> None | Some s' \<Rightarrow> site_run xs s')"

lemma site_run_reach:
  "site_run xs s = Some s' \<Longrightarrow> reach (site_start a) (site_step adding) s \<Longrightarrow> reach (site_start a) (site_step adding) s'"
proof (induction xs arbitrary: s)
  case (Cons x xs)
  then obtain u where u: "site_do adding x s = Some u" "site_run xs u = Some s'" by (auto split: option.splits)
  from site_step.intros [OF u(1)] Cons.prems(2) have "reach (site_start a) (site_step adding) u" by (rule reach_step [rotated])
  with Cons.IH [OF u(2)] show ?case .
qed simp

lemma site_example:
  "\<exists>s d. site_run [Post 7 () 1 3, Post 8 () 2 9, Reads 0, Post 7 () 3 4, Reads 0, Sends 0] new_site = Some s \<and>
     dict_get (instances (site_pool s)) 7 = Some d \<and> fut d = 0 \<and> posted s 7 = [3, 4] \<and> sent s = [(0, (), 7)]"
  by (simp add: new_site_def pool_start_def get_or_create_application_instance_def evict.simps create_instance_def
      put_message_def born_def adding_def running_def touch_def)

theorem messages_reach_their_instance_witness:
  "\<exists>(s :: (nat, unit, int, (unit, unit, unit, unit) application, nat) site) d.
     reach (site_start demo_app) (site_step adding) s \<and> dict_get (instances (site_pool s)) 7 = Some d \<and>
     sent s = [(fut d, (), 7)] \<and> posted s 7 = read_by s (fut d) @ mail s (input_queue d)"
proof -
  obtain s d where s: "site_run [Post 7 () 1 3, Post 8 () 2 9, Reads 0, Post 7 () 3 4, Reads 0, Sends 0] new_site = Some s"
    "dict_get (instances (site_pool s)) 7 = Some d" "fut d = 0" "sent s = [(0, (), 7)]" using site_example by blast
  have "reach (site_start demo_app) (site_step adding) new_site"
    by (rule reach_init) (auto simp: site_start_def new_site_def intro!: exI [of _ 1])
  from site_run_reach [OF s(1) this] have r: "reach (site_start demo_app) (site_step adding) s" .
  from messages_reach_their_instance [OF r s(2)] s r show ?thesis by (intro exI [of _ s] exI [of _ d]) simp
qed

end
