(* ===== verification/Strings.thy ===== *)
theory Strings
  imports Prelude
begin

text \<open>
  Python's \<open>str\<close> and \<open>bytes\<close> as far as \<open>asgiref/wsgi.py\<close> uses them: UTF-8, Latin-1 and
  ASCII, case mapping, \<open>int\<close>, splitting and slicing; and what makes the UTF-8 steps of the
  adapter reversible: the decoder undoes the encoder, and one encoded string starts with another
  exactly when the strings do.
\<close>

section \<open>Strings and bytes\<close>

text \<open>
  A Python \<open>str\<close> is a list of code points, \<open>bytes\<close> a list of numbers below 256. \<open>lit\<close>
  writes ASCII literals.
\<close>

type_synonym pystr = "nat list"
type_synonym bytes = "nat list"

definition lit :: "string \<Rightarrow> nat list" where
  "lit s = map of_char s"

text \<open>UTF-8 of one code point; surrogates cannot be encoded.\<close>

definition utf8_point :: "nat \<Rightarrow> exn + bytes" where
  "utf8_point c = (if c < 128 then Inr [c]
     else if c < 2048 then Inr [192 + c div 64, 128 + c mod 64]
     else if 55296 \<le> c \<and> c < 57344 then Inl UnicodeError
     else if c < 65536 then Inr [224 + c div 4096, 128 + c div 64 mod 64, 128 + c mod 64]
     else Inr [240 + c div 262144, 128 + c div 4096 mod 64, 128 + c div 64 mod 64, 128 + c mod 64])"

fun utf8_encode :: "pystr \<Rightarrow> exn + bytes" where
  "utf8_encode [] = Inr []"
| "utf8_encode (c # cs) = (case utf8_point c of
     Inl e \<Rightarrow> Inl e
   | Inr b \<Rightarrow> (case utf8_encode cs of Inl e \<Rightarrow> Inl e | Inr bs \<Rightarrow> Inr (b @ bs)))"

definition latin1_decode :: "bytes \<Rightarrow> pystr" where
  "latin1_decode b = b"

definition ascii_decode :: "bytes \<Rightarrow> exn + pystr" where
  "ascii_decode b = (if list_all (\<lambda>c. c < 128) b then Inr b else Inl UnicodeError)"

definition ascii_encode :: "pystr \<Rightarrow> exn + bytes" where
  "ascii_encode s = (if list_all (\<lambda>c. c < 128) s then Inr s else Inl UnicodeError)"

text \<open>
  \<open>str.upper\<close> on Latin-1 text: sharp s becomes two letters, the micro sign and y with diaeresis
  leave Latin-1.
\<close>

definition upper_point :: "nat \<Rightarrow> pystr" where
  "upper_point c = (if 97 \<le> c \<and> c \<le> 122 then [c - 32]
     else if c = 223 then [83, 83]
     else if c = 181 then [924]
     else if c = 255 then [376]
     else if 224 \<le> c \<and> c \<le> 254 \<and> c \<noteq> 247 then [c - 32]
     else [c])"

definition py_upper :: "pystr \<Rightarrow> pystr" where
  "py_upper s = concat (map upper_point s)"

text \<open>
  \<open>str.lower\<close> as far as ASCII text and the test for ASCII are concerned: besides the capital
  letters only the Kelvin sign has an ASCII lower case.
\<close>

definition lower_point :: "nat \<Rightarrow> nat" where
  "lower_point c = (if 65 \<le> c \<and> c \<le> 90 then c + 32 else if c = 8490 then 107 else c)"

definition py_lower :: "pystr \<Rightarrow> pystr" where
  "py_lower s = map lower_point s"

definition replace_dashes :: "pystr \<Rightarrow> pystr" where
  "replace_dashes s = map (\<lambda>c. if c = 45 then 95 else c) s"

fun join_commas :: "pystr list \<Rightarrow> pystr" where
  "join_commas [] = []"
| "join_commas [v] = v"
| "join_commas (v # vs) = v @ 44 # join_commas vs"

text \<open>\<open>int(s)\<close>: white space around, a sign, digits with single underscores between them.\<close>

definition is_space :: "nat \<Rightarrow> bool" where
  "is_space c \<longleftrightarrow> (9 \<le> c \<and> c \<le> 13) \<or> (28 \<le> c \<and> c \<le> 32) \<or> c = 133 \<or> c = 160"

definition strip :: "pystr \<Rightarrow> pystr" where
  "strip s = rev (dropWhile is_space (rev (dropWhile is_space s)))"

text \<open>\<open>prev\<close>: the character before is a digit, so an underscore may follow.\<close>

fun digits :: "bool \<Rightarrow> int \<Rightarrow> pystr \<Rightarrow> int option" where
  "digits prev n [] = (if prev then Some n else None)"
| "digits prev n (c # cs) =
     (if 48 \<le> c \<and> c \<le> 57 then digits True (10 * n + (int c - 48)) cs
      else if c = 95 \<and> prev then digits False n cs else None)"

definition py_int :: "pystr \<Rightarrow> exn + int" where
  "py_int s = (case (case strip s of
       [] \<Rightarrow> None
     | c # cs \<Rightarrow> if c = 45 then map_option uminus (digits False 0 cs)
                 else if c = 43 then digits False 0 cs else digits False 0 (c # cs)) of
     None \<Rightarrow> Inl ValueError | Some n \<Rightarrow> Inr n)"

text \<open>\<open>s.split(" ", 1)\<close> unpacked into two names: an error when there is no space.\<close>

fun split_space :: "pystr \<Rightarrow> exn + pystr \<times> pystr" where
  "split_space [] = Inl ValueError"
| "split_space (c # cs) = (if c = 32 then Inr ([], cs)
     else (case split_space cs of Inl e \<Rightarrow> Inl e | Inr (a, b) \<Rightarrow> Inr (c # a, b)))"

text \<open>The slice \<open>xs[:n]\<close>: a negative bound counts from the end.\<close>

definition slice_to :: "int \<Rightarrow> 'a list \<Rightarrow> 'a list" where
  "slice_to n xs = (if 0 \<le> n then take (nat n) xs else take (nat (int (length xs) + n)) xs)"

section \<open>Decoding UTF-8\<close>

text \<open>
  \<open>bytes.decode("utf8")\<close>, one code point at a time: \<open>utf8_next\<close> takes the first code point off
  and hands back the rest. Overlong forms, surrogates and numbers above 0x10FFFF are refused.
\<close>

definition continuation :: "nat \<Rightarrow> bool" where
  "continuation b \<longleftrightarrow> 128 \<le> b \<and> b < 192"

definition surrogate :: "nat \<Rightarrow> bool" where
  "surrogate c \<longleftrightarrow> 55296 \<le> c \<and> c < 57344"

fun utf8_two :: "nat \<Rightarrow> bytes \<Rightarrow> (nat \<times> bytes) option" where
  "utf8_two a (b # r) = (if continuation b then Some (64 * (a - 192) + (b - 128), r) else None)"
| "utf8_two a r = None"

fun utf8_three :: "nat \<Rightarrow> bytes \<Rightarrow> (nat \<times> bytes) option" where
  "utf8_three a (b # c # r) = (let n = 4096 * (a - 224) + (64 * (b - 128) + (c - 128)) in
     if continuation b \<and> continuation c \<and> 2048 \<le> n \<and> \<not> surrogate n then Some (n, r) else None)"
| "utf8_three a r = None"

fun utf8_four :: "nat \<Rightarrow> bytes \<Rightarrow> (nat \<times> bytes) option" where
  "utf8_four a (b # c # d # r) =
     (let n = 262144 * (a - 240) + (4096 * (b - 128) + (64 * (c - 128) + (d - 128))) in
      if continuation b \<and> continuation c \<and> continuation d \<and> 65536 \<le> n \<and> n < 1114112
      then Some (n, r) else None)"
| "utf8_four a r = None"

fun utf8_next :: "bytes \<Rightarrow> (nat \<times> bytes) option" where
  "utf8_next [] = None"
| "utf8_next (a # r) = (if a < 128 then Some (a, r)
     else if 194 \<le> a \<and> a < 224 then utf8_two a r
     else if 224 \<le> a \<and> a < 240 then utf8_three a r
     else if 240 \<le> a \<and> a < 245 then utf8_four a r
     else None)"

lemma utf8_next_shorter: "utf8_next bs = Some (c, r) \<Longrightarrow> length r < length bs"
proof (cases bs)
  case (Cons a rest)
  moreover have "utf8_two a rest = Some (c, r) \<Longrightarrow> length r \<le> length rest"
    by (cases "(a, rest)" rule: utf8_two.cases) (auto split: if_splits)
  moreover have "utf8_three a rest = Some (c, r) \<Longrightarrow> length r \<le> length rest"
    by (cases "(a, rest)" rule: utf8_three.cases) (auto simp: Let_def split: if_splits)
  moreover have "utf8_four a rest = Some (c, r) \<Longrightarrow> length r \<le> length rest"
    by (cases "(a, rest)" rule: utf8_four.cases) (auto simp: Let_def split: if_splits)
  ultimately show "utf8_next bs = Some (c, r) \<Longrightarrow> length r < length bs"
    by (auto split: if_splits)
qed simp

function utf8_decode :: "bytes \<Rightarrow> exn + pystr" where
  "utf8_decode bs = (if bs = [] then Inr [] else case utf8_next bs of
     None \<Rightarrow> Inl UnicodeError
   | Some (c, r) \<Rightarrow> (case utf8_decode r of Inl e \<Rightarrow> Inl e | Inr cs \<Rightarrow> Inr (c # cs)))"
  by pat_completeness auto
termination by (relation "measure length") (auto dest: utf8_next_shorter)

declare utf8_decode.simps [simp del]

section \<open>The encoder and the decoder\<close>

text \<open>The numbers a Python \<open>str\<close> can hold.\<close>

definition code_points :: "pystr \<Rightarrow> bool" where
  "code_points s \<longleftrightarrow> list_all (\<lambda>c. c < 1114112) s"

lemma base64_split:
  "4096 * (c div 4096) + (64 * (c div 64 mod 64) + c mod 64) = (c::nat)"
  "262144 * (c div 262144) + (4096 * (c div 4096 mod 64) + (64 * (c div 64 mod 64) + c mod 64)) = c"
proof -
  have "64 * (c div 64 div 64) + c div 64 mod 64 = c div 64" by simp
  moreover have "c div 64 div 64 = c div 4096" by (simp add: div_mult2_eq [symmetric])
  ultimately show one: "4096 * (c div 4096) + (64 * (c div 64 mod 64) + c mod 64) = c"
    using mult_div_mod_eq [of 64 c] by linarith
  have "64 * (c div 4096 div 64) + c div 4096 mod 64 = c div 4096" by simp
  moreover have "c div 4096 div 64 = c div 262144" by (simp add: div_mult2_eq [symmetric])
  ultimately show "262144 * (c div 262144) + (4096 * (c div 4096 mod 64) + (64 * (c div 64 mod 64) + c mod 64)) = c"
    using one by linarith
qed

lemma utf8_next_point:
  assumes "utf8_point c = Inr b" and "c < 1114112"
  shows "utf8_next (b @ r) = Some (c, r)"
proof -
  have m: "c mod 64 < 64" "c div 64 mod 64 < 64" "c div 4096 mod 64 < 64" by simp_all
  consider "c < 128" | "128 \<le> c" "c < 2048" | "2048 \<le> c" "c < 65536" "\<not> surrogate c"
    | "65536 \<le> c"
    using assms(1) by (fastforce simp: utf8_point_def surrogate_def not_less split: if_splits)
  then show ?thesis
  proof cases
    case 1
    with assms show ?thesis by (auto simp: utf8_point_def)
  next
    case 2
    then have "2 \<le> c div 64" "c div 64 < 32" by auto
    with 2 assms m show ?thesis by (auto simp: utf8_point_def continuation_def)
  next
    case 3
    then have "c div 4096 < 16" by auto
    with 3 assms m show ?thesis
      by (auto simp: utf8_point_def continuation_def Let_def base64_split surrogate_def)
  next
    case 4
    then have "c div 262144 < 5" using assms(2) by auto
    with 4 assms m show ?thesis
      by (auto simp: utf8_point_def continuation_def Let_def base64_split)
  qed
qed

lemma utf8_point_nonempty: "utf8_point c = Inr b \<Longrightarrow> b \<noteq> []"
  by (auto simp: utf8_point_def split: if_splits)

lemma utf8_encode_Cons:
  "utf8_encode (c # cs) = Inr bs \<longleftrightarrow> (\<exists>b r. utf8_point c = Inr b \<and> utf8_encode cs = Inr r \<and> bs = b @ r)"
  by (auto split: sum.splits)

lemma utf8_decode_encode:
  "utf8_encode s = Inr bs \<Longrightarrow> code_points s \<Longrightarrow> utf8_decode bs = Inr s"
proof (induction s arbitrary: bs)
  case (Cons c cs)
  then obtain b r where b: "utf8_point c = Inr b" "utf8_encode cs = Inr r" "bs = b @ r"
    by (auto simp only: utf8_encode_Cons)
  with Cons show ?case
    using utf8_next_point [OF b(1)] utf8_point_nonempty [OF b(1)]
    by (subst utf8_decode.simps) (simp add: code_points_def)
qed (simp add: utf8_decode.simps)

lemma utf8_encode_bytes:
  "utf8_encode s = Inr bs \<Longrightarrow> code_points s \<Longrightarrow> list_all (\<lambda>b. b < 256) bs"
proof (induction s arbitrary: bs)
  case (Cons c cs)
  have "list_all (\<lambda>b. b < 256) b" if "utf8_point c = Inr b" for b
    using that Cons.prems(2) by (auto simp: utf8_point_def code_points_def split: if_splits)
  with Cons show ?case by (auto simp: utf8_encode_Cons code_points_def simp del: utf8_encode.simps)
qed simp

lemma utf8_encode_append:
  "utf8_encode (s @ t) = (case utf8_encode s of Inl e \<Rightarrow> Inl e | Inr bs \<Rightarrow>
     (case utf8_encode t of Inl e \<Rightarrow> Inl e | Inr bt \<Rightarrow> Inr (bs @ bt)))"
  by (induction s) (auto split: sum.splits)

text \<open>A character has an encoding exactly when it is not a surrogate.\<close>

lemma utf8_encode_defined:
  "(\<exists>bs. utf8_encode s = Inr bs) \<longleftrightarrow> list_all (\<lambda>c. \<not> surrogate c) s"
proof (induction s)
  case (Cons c cs)
  have "(\<exists>b. utf8_point c = Inr b) \<longleftrightarrow> \<not> surrogate c"
    by (auto simp: utf8_point_def surrogate_def)
  with Cons show ?case by (auto simp: utf8_encode_Cons simp del: utf8_encode.simps)
qed simp

text \<open>UTF-8 is a prefix code, so prefixes of encodings are encodings of prefixes.\<close>

lemma utf8_encode_prefix:
  assumes "utf8_encode p = Inr bp" and "utf8_encode s = Inr bs" and "code_points p" and "code_points s"
  shows "(\<exists>r. bs = bp @ r) \<longleftrightarrow> (\<exists>t. s = p @ t)"
  using assms
proof (induction p arbitrary: bp s bs)
  case (Cons c cs)
  obtain b r where b: "utf8_point c = Inr b" "utf8_encode cs = Inr r" "bp = b @ r"
    using Cons.prems(1) by (auto simp only: utf8_encode_Cons)
  show ?case
  proof (cases s)
    case Nil
    with Cons.prems utf8_point_nonempty [OF b(1)] show ?thesis by (simp add: b(3))
  next
    case (Cons d ds)
    obtain b' r' where b': "utf8_point d = Inr b'" "utf8_encode ds = Inr r'" "bs = b' @ r'"
      using Cons.prems(2) Cons by (auto simp only: utf8_encode_Cons)
    have "c < 1114112" "d < 1114112" "code_points cs" "code_points ds"
      using Cons.prems(3,4) Cons by (simp_all add: code_points_def)
    note next_c = utf8_next_point [OF b(1) this(1)] and next_d = utf8_next_point [OF b'(1) this(2)]
      and IH = Cons.IH [OF b(2) b'(2) this(3,4)]
    have "(\<exists>x. b' @ r' = b @ r @ x) \<longleftrightarrow> c = d \<and> (\<exists>x. r' = r @ x)"
    proof
      assume "\<exists>x. b' @ r' = b @ r @ x"
      then obtain x where x: "b' @ r' = b @ r @ x" by blast
      have "utf8_next (b' @ r') = Some (c, r @ x)" using next_c [of "r @ x"] x by simp
      with next_d [of r'] show "c = d \<and> (\<exists>x. r' = r @ x)" by auto
    next
      assume "c = d \<and> (\<exists>x. r' = r @ x)"
      with b b' show "\<exists>x. b' @ r' = b @ r @ x" by auto
    qed
    with IH show ?thesis by (auto simp: b(3) b'(3) Cons)
  qed
qed simp

end
