(* ===== verification/Asgi_Types.thy ===== *)
theory Asgi_Types
  imports Strings
begin

text \<open>
  \<open>asgiref/typing.py\<close>: the declared types of scopes and events as data, and a checker that
  decides whether a Python value has such a type. One definition per \<open>TypedDict\<close>, under its
  name in the source, then the unions and the callables built from them.
\<close>

section \<open>Python values\<close>

text \<open>
  \<open>PIter vs\<close> is any other iterable (a generator, a set) that yields \<open>vs\<close>; \<open>PObj n\<close> an
  object that is none of the listed ones.
\<close>

datatype pyval =
    PNone | PBool bool | PInt int | PStr pystr | PBytes bytes
  | PTuple "pyval list" | PList "pyval list" | PIter "pyval list"
  | PDict "(pyval \<times> pyval) list" | PObj nat

text \<open>What \<open>iter(v)\<close> yields; iterating a dict yields its keys, \<open>bytes\<close> yields integers.\<close>

fun elements :: "pyval \<Rightarrow> pyval list option" where
  "elements (PTuple vs) = Some vs"
| "elements (PList vs) = Some vs"
| "elements (PIter vs) = Some vs"
| "elements (PDict d) = Some (dict_keys d)"
| "elements (PStr s) = Some (map (\<lambda>c. PStr [c]) s)"
| "elements (PBytes b) = Some (map (PInt \<circ> int) b)"
| "elements _ = None"

text \<open>\<open>d[k]\<close> for a string key: the entry, or \<open>None\<close> where Python raises \<open>KeyError\<close>.\<close>

fun key_of :: "pyval \<Rightarrow> pystr \<Rightarrow> pyval option" where
  "key_of (PDict d) k = dict_get d (PStr k)"
| "key_of _ k = None"

section \<open>Types and their checker\<close>

text \<open>
  \<open>TAny\<close> stands for \<open>Any\<close> and for \<open>object\<close>. \<open>TTyped fs\<close> is a \<open>TypedDict\<close>: a dict with
  string keys in which every \<open>Key\<close> is present and every declared key that is present has its
  type; other keys may be present, as for any structural type. \<open>bool\<close> is a subclass of \<open>int\<close>.
\<close>

datatype ty =
    TAny | TNone | TStr | TBytes | TInt | TBool | TLiteral pystr
  | TOptional ty | TTuple "ty list" | TIterable ty | TDict ty ty | TUnion "ty list"
  | TTyped "field list"
and field = Key pystr ty | NotRequired pystr ty

definition is_byte_string :: "bytes \<Rightarrow> bool" where
  "is_byte_string b \<longleftrightarrow> list_all (\<lambda>c. c < 256) b"

fun is_str :: "pyval \<Rightarrow> bool" where
  "is_str (PStr s) = code_points s"
| "is_str _ = False"

text \<open>A tuple against the checkers of its positions.\<close>

fun positions_ok :: "(pyval \<Rightarrow> bool) list \<Rightarrow> pyval list \<Rightarrow> bool" where
  "positions_ok [] [] = True"
| "positions_ok (p # ps) (v # vs) = (p v \<and> positions_ok ps vs)"
| "positions_ok _ _ = False"

primrec has_type :: "ty \<Rightarrow> pyval \<Rightarrow> bool"
and has_field :: "field \<Rightarrow> (pyval \<times> pyval) list \<Rightarrow> bool" where
  "has_type TAny = (\<lambda>v. True)"
| "has_type TNone = (\<lambda>v. v = PNone)"
| "has_type TStr = is_str"
| "has_type TBytes = (\<lambda>v. case v of PBytes b \<Rightarrow> is_byte_string b | _ \<Rightarrow> False)"
| "has_type TInt = (\<lambda>v. case v of PInt _ \<Rightarrow> True | PBool _ \<Rightarrow> True | _ \<Rightarrow> False)"
| "has_type TBool = (\<lambda>v. case v of PBool _ \<Rightarrow> True | _ \<Rightarrow> False)"
| "has_type (TLiteral s) = (\<lambda>v. v = PStr s)"
| "has_type (TOptional t) = (\<lambda>v. v = PNone \<or> has_type t v)"
| "has_type (TTuple ts) = (\<lambda>v. case v of PTuple vs \<Rightarrow> positions_ok (map has_type ts) vs | _ \<Rightarrow> False)"
| "has_type (TIterable t) = (\<lambda>v. case elements v of None \<Rightarrow> False | Some vs \<Rightarrow> list_all (has_type t) vs)"
| "has_type (TDict k t) = (\<lambda>v. case v of
     PDict d \<Rightarrow> list_all (\<lambda>p. has_type k (fst p) \<and> has_type t (snd p)) d | _ \<Rightarrow> False)"
| "has_type (TUnion ts) = (\<lambda>v. list_ex (\<lambda>p. p v) (map has_type ts))"
| "has_type (TTyped fs) = (\<lambda>v. case v of
     PDict d \<Rightarrow> list_all (\<lambda>p. is_str (fst p)) d \<and> list_all (\<lambda>f. f d) (map has_field fs) | _ \<Rightarrow> False)"
| "has_field (Key k t) = (\<lambda>d. case dict_get d (PStr k) of None \<Rightarrow> False | Some v \<Rightarrow> has_type t v)"
| "has_field (NotRequired k t) = (\<lambda>d. case dict_get d (PStr k) of None \<Rightarrow> True | Some v \<Rightarrow> has_type t v)"

lemma has_type_union [simp]: "has_type (TUnion ts) v \<longleftrightarrow> (\<exists>t \<in> set ts. has_type t v)"
  by (induction ts) auto

lemma has_type_typed [simp]: "has_type (TTyped fs) v \<longleftrightarrow>
    (\<exists>d. v = PDict d \<and> list_all (\<lambda>p. is_str (fst p)) d \<and> (\<forall>f \<in> set fs. has_field f d))"
  by (cases v) (auto simp: list_all_iff)

declare has_type.simps(12,13) [simp del]

lemma key_of_Some: "key_of v k = Some x \<Longrightarrow> \<exists>d. v = PDict d \<and> dict_get d (PStr k) = Some x"
  by (cases v) auto

section \<open>Scopes\<close>

abbreviation key :: "string \<Rightarrow> ty \<Rightarrow> field" where
  "key s \<equiv> Key (lit s)"

abbreviation not_required :: "string \<Rightarrow> ty \<Rightarrow> field" where
  "not_required s \<equiv> NotRequired (lit s)"

abbreviation literal :: "string \<Rightarrow> ty" where
  "literal s \<equiv> TLiteral (lit s)"

definition ASGIVersions :: ty where
  "ASGIVersions = TTyped [key ''spec_version'' TStr,
     key ''version'' (TUnion [literal ''2.0'', literal ''3.0''])]"

abbreviation header_type :: ty where
  "header_type \<equiv> TIterable (TTuple [TBytes, TBytes])"

abbreviation extensions_type :: ty where
  "extensions_type \<equiv> TOptional (TDict TStr (TDict TAny TAny))"

definition HTTPScope :: ty where
  "HTTPScope = TTyped [key ''type'' (literal ''http''), key ''asgi'' ASGIVersions,
     key ''http_version'' TStr, key ''method'' TStr, key ''scheme'' TStr, key ''path'' TStr,
     key ''raw_path'' TBytes, key ''query_string'' TBytes, key ''root_path'' TStr,
     key ''headers'' header_type, key ''client'' (TOptional (TTuple [TStr, TInt])),
     key ''server'' (TOptional (TTuple [TStr, TOptional TInt])),
     not_required ''state'' (TDict TStr TAny), key ''extensions'' extensions_type]"

definition WebSocketScope :: ty where
  "WebSocketScope = TTyped [key ''type'' (literal ''websocket''), key ''asgi'' ASGIVersions,
     key ''http_version'' TStr, key ''scheme'' TStr, key ''path'' TStr,
     key ''raw_path'' TBytes, key ''query_string'' TBytes, key ''root_path'' TStr,
     key ''headers'' header_type, key ''client'' (TOptional (TTuple [TStr, TInt])),
     key ''server'' (TOptional (TTuple [TStr, TOptional TInt])), key ''subprotocols'' (TIterable TStr),
     not_required ''state'' (TDict TStr TAny), key ''extensions'' extensions_type]"

definition LifespanScope :: ty where
  "LifespanScope = TTyped [key ''type'' (literal ''lifespan''), key ''asgi'' ASGIVersions,
     not_required ''state'' (TDict TStr TAny)]"

definition WWWScope :: ty where
  "WWWScope = TUnion [HTTPScope, WebSocketScope]"

definition Scope :: ty where
  "Scope = TUnion [HTTPScope, WebSocketScope, LifespanScope]"

section \<open>Events\<close>

definition HTTPRequestEvent :: ty where
  "HTTPRequestEvent = TTyped [key ''type'' (literal ''http.request''), key ''body'' TBytes, key ''more_body'' TBool]"

definition HTTPResponseDebugEvent :: ty where
  "HTTPResponseDebugEvent = TTyped [key ''type'' (literal ''http.response.debug''), key ''info'' (TDict TStr TAny)]"

definition HTTPResponseStartEvent :: ty where
  "HTTPResponseStartEvent = TTyped [key ''type'' (literal ''http.response.start''), key ''status'' TInt,
     key ''headers'' header_type, key ''trailers'' TBool]"

definition HTTPResponseBodyEvent :: ty where
  "HTTPResponseBodyEvent = TTyped [key ''type'' (literal ''http.response.body''), key ''body'' TBytes,
     key ''more_body'' TBool]"

definition HTTPResponseTrailersEvent :: ty where
  "HTTPResponseTrailersEvent = TTyped [key ''type'' (literal ''http.response.trailers''),
     key ''headers'' header_type, key ''more_trailers'' TBool]"

definition HTTPResponsePathsendEvent :: ty where
  "HTTPResponsePathsendEvent = TTyped [key ''type'' (literal ''http.response.pathsend''), key ''path'' TStr]"

definition HTTPServerPushEvent :: ty where
  "HTTPServerPushEvent = TTyped [key ''type'' (literal ''http.response.push''), key ''path'' TStr,
     key ''headers'' header_type]"

definition HTTPDisconnectEvent :: ty where
  "HTTPDisconnectEvent = TTyped [key ''type'' (literal ''http.disconnect'')]"

definition WebSocketConnectEvent :: ty where
  "WebSocketConnectEvent = TTyped [key ''type'' (literal ''websocket.connect'')]"

definition WebSocketAcceptEvent :: ty where
  "WebSocketAcceptEvent = TTyped [key ''type'' (literal ''websocket.accept''),
     key ''subprotocol'' (TOptional TStr), key ''headers'' header_type]"

definition WebSocketReceiveEvent :: ty where
  "WebSocketReceiveEvent = TTyped [key ''type'' (literal ''websocket.receive''),
     key ''bytes'' (TOptional TBytes), key ''text'' (TOptional TStr)]"

definition WebSocketSendEvent :: ty where
  "WebSocketSendEvent = TTyped [key ''type'' (literal ''websocket.send''),
     key ''bytes'' (TOptional TBytes), key ''text'' (TOptional TStr)]"

definition WebSocketResponseStartEvent :: ty where
  "WebSocketResponseStartEvent = TTyped [key ''type'' (literal ''websocket.http.response.start''),
     key ''status'' TInt, key ''headers'' header_type]"

definition WebSocketResponseBodyEvent :: ty where
  "WebSocketResponseBodyEvent = TTyped [key ''type'' (literal ''websocket.http.response.body''),
     key ''body'' TBytes, key ''more_body'' TBool]"

definition WebSocketDisconnectEvent :: ty where
  "WebSocketDisconnectEvent = TTyped [key ''type'' (literal ''websocket.disconnect''),
     key ''code'' TInt, key ''reason'' (TOptional TStr)]"

definition WebSocketCloseEvent :: ty where
  "WebSocketCloseEvent = TTyped [key ''type'' (literal ''websocket.close''),
     key ''code'' TInt, key ''reason'' (TOptional TStr)]"

definition LifespanStartupEvent :: ty where
  "LifespanStartupEvent = TTyped [key ''type'' (literal ''lifespan.startup'')]"

definition LifespanShutdownEvent :: ty where
  "LifespanShutdownEvent = TTyped [key ''type'' (literal ''lifespan.shutdown'')]"

definition LifespanStartupCompleteEvent :: ty where
  "LifespanStartupCompleteEvent = TTyped [key ''type'' (literal ''lifespan.startup.complete'')]"

definition LifespanStartupFailedEvent :: ty where
  "LifespanStartupFailedEvent = TTyped [key ''type'' (literal ''lifespan.startup.failed''), key ''message'' TStr]"

definition LifespanShutdownCompleteEvent :: ty where
  "LifespanShutdownCompleteEvent = TTyped [key ''type'' (literal ''lifespan.shutdown.complete'')]"

definition LifespanShutdownFailedEvent :: ty where
  "LifespanShutdownFailedEvent = TTyped [key ''type'' (literal ''lifespan.shutdown.failed''), key ''message'' TStr]"

definition ASGIReceiveEvent :: ty where
  "ASGIReceiveEvent = TUnion [HTTPRequestEvent, HTTPDisconnectEvent, WebSocketConnectEvent,
     WebSocketReceiveEvent, WebSocketDisconnectEvent, LifespanStartupEvent, LifespanShutdownEvent]"

definition ASGISendEvent :: ty where
  "ASGISendEvent = TUnion [HTTPResponseStartEvent, HTTPResponseBodyEvent, HTTPResponseTrailersEvent,
     HTTPServerPushEvent, HTTPDisconnectEvent, WebSocketAcceptEvent, WebSocketSendEvent,
     WebSocketResponseStartEvent, WebSocketResponseBodyEvent, WebSocketCloseEvent,
     LifespanStartupCompleteEvent, LifespanStartupFailedEvent, LifespanShutdownCompleteEvent,
     LifespanShutdownFailedEvent]"

text \<open>
  A callable is checked by what passes through it: \<open>receive\<close> takes no argument and its awaitable
  ends with a receive event; \<open>send\<close> takes a send event and its awaitable ends with \<open>None\<close>. A run
  of an application is its scope and, in order, what it received and sent, and what it ended with.
\<close>

datatype exchange = Received pyval | Sent pyval pyval

fun exchange_ok :: "exchange \<Rightarrow> bool" where
  "exchange_ok (Received m) = has_type ASGIReceiveEvent m"
| "exchange_ok (Sent m r) = (has_type ASGISendEvent m \<and> r = PNone)"

definition application_run_ok :: "pyval \<Rightarrow> exchange list \<Rightarrow> pyval \<Rightarrow> bool" where
  "application_run_ok sc xs result \<longleftrightarrow> has_type Scope sc \<and> list_all exchange_ok xs \<and> result = PNone"

lemmas scope_types = HTTPScope_def WebSocketScope_def LifespanScope_def

lemmas receive_types = HTTPRequestEvent_def HTTPDisconnectEvent_def WebSocketConnectEvent_def
  WebSocketReceiveEvent_def WebSocketDisconnectEvent_def LifespanStartupEvent_def LifespanShutdownEvent_def

lemmas send_types = HTTPResponseStartEvent_def HTTPResponseBodyEvent_def HTTPResponseTrailersEvent_def
  HTTPServerPushEvent_def HTTPDisconnectEvent_def WebSocketAcceptEvent_def WebSocketSendEvent_def
  WebSocketResponseStartEvent_def WebSocketResponseBodyEvent_def WebSocketCloseEvent_def
  LifespanStartupCompleteEvent_def LifespanStartupFailedEvent_def LifespanShutdownCompleteEvent_def
  LifespanShutdownFailedEvent_def

section \<open>The tag selects the member\<close>

text \<open>
  The literal that a \<open>TypedDict\<close> requires under \<open>type\<close>, and the member of a union that has a
  given one: what code that looks at \<open>message["type"]\<close> decides.
\<close>

fun tag_of_fields :: "field list \<Rightarrow> pystr option" where
  "tag_of_fields [] = None"
| "tag_of_fields (Key k (TLiteral s) # fs) = (if k = lit ''type'' then Some s else tag_of_fields fs)"
| "tag_of_fields (_ # fs) = tag_of_fields fs"

fun tag_of :: "ty \<Rightarrow> pystr option" where
  "tag_of (TTyped fs) = tag_of_fields fs"
| "tag_of _ = None"

fun members :: "ty \<Rightarrow> ty list" where
  "members (TUnion ts) = ts"
| "members t = [t]"

definition tagged_union :: "ty \<Rightarrow> bool" where
  "tagged_union t \<longleftrightarrow> list_all (\<lambda>m. tag_of m \<noteq> None) (members t) \<and> distinct (map tag_of (members t))"

definition select_member :: "ty \<Rightarrow> pyval \<Rightarrow> ty option" where
  "select_member t v = (case key_of v (lit ''type'') of
     Some (PStr s) \<Rightarrow> find (\<lambda>m. tag_of m = Some s) (members t) | _ \<Rightarrow> None)"

lemma tag_of_fields_required:
  "tag_of_fields fs = Some s \<Longrightarrow> \<forall>f \<in> set fs. has_field f d \<Longrightarrow> dict_get d (PStr (lit ''type'')) = Some (PStr s)"
  by (induction fs rule: tag_of_fields.induct) (auto split: if_splits option.splits)

lemma tag_of_required:
  assumes "tag_of t = Some s" and "has_type t v"
  shows "key_of v (lit ''type'') = Some (PStr s)"
proof -
  from assms(1) obtain fs where "t = TTyped fs" by (cases t) auto
  with assms tag_of_fields_required show ?thesis by (cases v) auto
qed

lemma find_tag:
  assumes "distinct (map tag_of ts)" and "m \<in> set ts" and "tag_of m = Some s"
  shows "find (\<lambda>m. tag_of m = Some s) ts = Some m"
  using assms by (induction ts) (auto simp: image_iff)

lemma select_member_unique:
  assumes "tagged_union t" and "m \<in> set (members t)" and "has_type m v"
  shows "select_member t v = Some m"
proof -
  from assms obtain s where s: "tag_of m = Some s"
    by (auto simp: tagged_union_def list_all_iff)
  from tag_of_required [OF this assms(3)] find_tag [OF _ assms(2) s] assms(1)
  show ?thesis by (simp add: select_member_def tagged_union_def)
qed

lemma select_member_in: "select_member t v = Some m \<Longrightarrow> m \<in> set (members t)"
  by (auto simp: select_member_def split: option.splits pyval.splits dest: find_SomeD)

lemma tagged_union_dispatch:
  assumes "tagged_union (TUnion ts)"
  shows "has_type (TUnion ts) v \<longleftrightarrow> (case select_member (TUnion ts) v of None \<Rightarrow> False | Some m \<Rightarrow> has_type m v)"
proof
  assume "has_type (TUnion ts) v"
  then obtain m where m: "m \<in> set ts" "has_type m v" by auto
  with select_member_unique [OF assms, of m v] show "case select_member (TUnion ts) v of None \<Rightarrow> False | Some m \<Rightarrow> has_type m v"
    by simp
next
  assume "case select_member (TUnion ts) v of None \<Rightarrow> False | Some m \<Rightarrow> has_type m v"
  then obtain m where m: "select_member (TUnion ts) v = Some m" "has_type m v" by (auto split: option.splits)
  with select_member_in [OF m(1)] show "has_type (TUnion ts) v" by auto
qed

lemma tags_distinct:
  "tagged_union Scope" "tagged_union ASGIReceiveEvent" "tagged_union ASGISendEvent" "tagged_union WWWScope"
  by (simp_all add: tagged_union_def Scope_def WWWScope_def ASGIReceiveEvent_def ASGISendEvent_def
      scope_types receive_types send_types lit_def)

text \<open>Looking at the type literal decides the union. A value is a scope, a receive event or a
  send event exactly when the member of that union that requires the value's own \<open>type\<close> entry
  accepts it, and no other member does: checking the whole union and dispatching on
  \<open>message["type"]\<close> are the same.\<close>

theorem tag_selects_member:
  "U \<in> {Scope, WWWScope, ASGIReceiveEvent, ASGISendEvent} \<Longrightarrow>
   (has_type U v \<longleftrightarrow> (case select_member U v of None \<Rightarrow> False | Some m \<Rightarrow> has_type m v)) \<and>
   (\<forall>m \<in> set (members U). has_type m v \<longrightarrow> select_member U v = Some m)"
proof -
  assume U: "U \<in> {Scope, WWWScope, ASGIReceiveEvent, ASGISendEvent}"
  then have t: "tagged_union U" using tags_distinct by auto
  from U obtain ts where ts: "U = TUnion ts"
    by (auto simp: Scope_def WWWScope_def ASGIReceiveEvent_def ASGISendEvent_def)
  show ?thesis
    using tagged_union_dispatch [of ts v] select_member_unique [OF t] t unfolding ts by blast
qed

theorem tag_selects_member_witness:
  "\<not> has_type ASGISendEvent (PDict [(PStr (lit ''type''), PStr (lit ''http.response.pathsend'')), (PStr (lit ''path''), PStr [])])"
proof -
  let ?v = "PDict [(PStr (lit ''type''), PStr (lit ''http.response.pathsend'')), (PStr (lit ''path''), PStr [])]"
  have "select_member ASGISendEvent ?v = None"
    by (simp add: select_member_def ASGISendEvent_def send_types lit_def)
  with tag_selects_member [of ASGISendEvent ?v] show ?thesis by simp
qed

text \<open>Two declared response events can be in no send union: a server that checks messages against
  \<open>ASGISendEvent\<close> refuses \<open>http.response.pathsend\<close> and \<open>http.response.debug\<close>.\<close>

lemma undeclared_responses:
  assumes "has_type HTTPResponsePathsendEvent v \<or> has_type HTTPResponseDebugEvent v"
  shows "\<not> has_type ASGISendEvent v"
proof -
  have "tag_of HTTPResponsePathsendEvent = Some (lit ''http.response.pathsend'')"
    "tag_of HTTPResponseDebugEvent = Some (lit ''http.response.debug'')"
    by (simp_all add: HTTPResponsePathsendEvent_def HTTPResponseDebugEvent_def)
  with assms tag_of_required have "key_of v (lit ''type'') = Some (PStr (lit ''http.response.pathsend''))
      \<or> key_of v (lit ''type'') = Some (PStr (lit ''http.response.debug''))" by blast
  then have "select_member ASGISendEvent v = None"
    by (auto simp: select_member_def ASGISendEvent_def send_types lit_def)
  with tagged_union_dispatch [OF tags_distinct(3) [unfolded ASGISendEvent_def]] show ?thesis
    by (simp add: ASGISendEvent_def)
qed

end
