(* ===== verification/Wsgi.thy ===== *)
theory Wsgi
  imports Strings
begin

text \<open>
  \<open>asgiref/wsgi.py\<close>: reading the request body, building the WSGI environment, and running a WSGI
  application while sending its response as ASGI messages. The WSGI application and the sending
  side are parameters.
\<close>

section \<open>The request\<close>

text \<open>
  The part of the scope that the adapter reads. A port is \<open>None\<close> or an integer, which may be a
  \<open>bool\<close>; of the client only the address is read.
\<close>

datatype port = PortNone | PortInt int | PortBool bool

datatype server_field = NoServer | ServerNone | ServerAddr pystr port

record scope =
  sc_type :: pystr
  root_path :: "pystr option"
  path :: pystr
  http_method :: pystr
  query_string :: bytes
  http_version :: pystr
  scheme :: "pystr option"
  server :: server_field
  client :: "pystr option"
  headers :: "(bytes \<times> bytes) list"

record request_message =
  rm_type :: pystr
  rm_body :: "bytes option"
  more_body :: bool

text \<open>Reading the body from the messages that arrive; \<open>None\<close>: it waits for another message.\<close>

fun read_body :: "bytes \<Rightarrow> request_message list \<Rightarrow> (exn + bytes) option" where
  "read_body acc [] = None"
| "read_body acc (m # ms) =
     (if rm_type m \<noteq> lit ''http.request'' then Some (Inl ValueError)
      else (let acc' = acc @ (case rm_body m of None \<Rightarrow> [] | Some b \<Rightarrow> b)
            in if more_body m then read_body acc' ms else Some (Inr acc')))"

section \<open>The environment\<close>

datatype env_value = Str pystr | Version nat nat | Body bytes | Stderr | Flag bool

type_synonym environ = "(pystr, env_value) dict"

definition corrected_name :: "bytes \<Rightarrow> pystr" where
  "corrected_name b = (let name = latin1_decode b
     in if name = lit ''content-length'' then lit ''CONTENT_LENGTH''
        else if name = lit ''content-type'' then lit ''CONTENT_TYPE''
        else lit ''HTTP_'' @ replace_dashes (py_upper name))"

text \<open>The header loop over the \<open>defaultdict(list)\<close>; a limit of 0 means no limit.\<close>

fun collect_headers :: "nat \<Rightarrow> (bytes \<times> bytes) list \<Rightarrow> (pystr, pystr list) dict \<Rightarrow>
    exn + (pystr, pystr list) dict" where
  "collect_headers limit [] acc = Inr acc"
| "collect_headers limit ((n, v) # hs) acc =
     (let name = corrected_name n; old = (case dict_get acc name of None \<Rightarrow> [] | Some vs \<Rightarrow> vs)
      in if limit \<noteq> 0 \<and> limit \<le> length old then Inl ValueError
         else collect_headers limit hs (dict_set name (old @ [latin1_decode v]) acc))"

fun add_headers :: "(pystr, pystr list) dict \<Rightarrow> environ \<Rightarrow> environ" where
  "add_headers [] env = env"
| "add_headers ((n, vs) # hs) env = add_headers hs (dict_set n (Str (join_commas vs)) env)"

definition starts_with :: "pystr \<Rightarrow> pystr \<Rightarrow> bool" where
  "starts_with s p \<longleftrightarrow> take (length p) s = p"

definition path_info :: "pystr \<Rightarrow> pystr \<Rightarrow> pystr" where
  "path_info script full = (if starts_with full script then drop (length script) full else full)"

text \<open>\<open>str\<close> of a port.\<close>

fun decimal :: "nat \<Rightarrow> pystr" where
  "decimal n = (if n < 10 then [48 + n] else decimal (n div 10) @ [48 + n mod 10])"

definition port_string :: "port \<Rightarrow> pystr" where
  "port_string p = (case p of
     PortNone \<Rightarrow> lit ''None''
   | PortBool b \<Rightarrow> lit (if b then ''True'' else ''False'')
   | PortInt i \<Rightarrow> if i < 0 then 45 # decimal (nat (- i)) else decimal (nat i))"

definition build_environ :: "nat \<Rightarrow> scope \<Rightarrow> bytes \<Rightarrow> exn + environ" where
  "build_environ limit sc body = (
     case utf8_encode (case root_path sc of None \<Rightarrow> [] | Some r \<Rightarrow> r) of Inl e \<Rightarrow> Inl e | Inr rb \<Rightarrow>
    (case utf8_encode (path sc) of Inl e \<Rightarrow> Inl e | Inr pb \<Rightarrow>
    (case ascii_decode (query_string sc) of Inl e \<Rightarrow> Inl e | Inr q \<Rightarrow>
      (let script = latin1_decode rb;
           base = [(lit ''REQUEST_METHOD'', Str (http_method sc)), (lit ''SCRIPT_NAME'', Str script),
             (lit ''PATH_INFO'', Str (path_info script (latin1_decode pb))), (lit ''QUERY_STRING'', Str q),
             (lit ''SERVER_PROTOCOL'', Str (lit ''HTTP/'' @ http_version sc)), (lit ''wsgi.version'', Version 1 0),
             (lit ''wsgi.url_scheme'', Str (case scheme sc of None \<Rightarrow> lit ''http'' | Some x \<Rightarrow> x)),
             (lit ''wsgi.input'', Body body), (lit ''wsgi.errors'', Stderr), (lit ''wsgi.multithread'', Flag True),
             (lit ''wsgi.multiprocess'', Flag True), (lit ''wsgi.run_once'', Flag False)]
       in case (case server sc of
            NoServer \<Rightarrow> Inr (lit ''localhost'', lit ''80'')
          | ServerNone \<Rightarrow> Inl TypeError
          | ServerAddr h p \<Rightarrow> Inr (h, port_string p)) of
         Inl e \<Rightarrow> Inl e
       | Inr (h, p) \<Rightarrow>
          (let env1 = base @ [(lit ''SERVER_NAME'', Str h), (lit ''SERVER_PORT'', Str p)]
               @ (case client sc of None \<Rightarrow> [] | Some a \<Rightarrow> [(lit ''REMOTE_ADDR'', Str a)])
           in case collect_headers limit (headers sc) [] of
                Inl e \<Rightarrow> Inl e | Inr hs \<Rightarrow> Inr (add_headers hs env1))))))"

section \<open>The response\<close>

record start =
  st_status :: int
  st_headers :: "(bytes \<times> bytes) list"

datatype message = ResponseStart start | ResponseBody bytes bool

text \<open>
  The instance; \<open>response_start = None\<close>: the attribute does not exist yet. \<open>sent\<close> records
  the messages handed to \<open>send\<close>; \<open>refuse\<close> is the sending side, which may raise.
\<close>

record inst =
  limit :: nat
  response_started :: bool
  content_length :: "int option"
  response_start :: "start option"
  sent :: "message list"

definition new_inst :: "nat \<Rightarrow> inst" where
  "new_inst n = \<lparr>limit = n, response_started = False, content_length = None, response_start = None, sent = []\<rparr>"

type_synonym sending = "message list \<Rightarrow> message \<Rightarrow> exn option"

definition sync_send :: "sending \<Rightarrow> message \<Rightarrow> (inst, unit) py" where
  "sync_send refuse m = (\<lambda>s. case refuse (sent s) m of
     Some e \<Rightarrow> (Inl e, s) | None \<Rightarrow> (Inr (), s\<lparr>sent := sent s @ [m]\<rparr>))"

fun encode_headers :: "(pystr \<times> pystr) list \<Rightarrow> exn + (bytes \<times> bytes) list" where
  "encode_headers [] = Inr []"
| "encode_headers ((n, v) # hs) = (case ascii_encode (py_lower n) of Inl e \<Rightarrow> Inl e | Inr nb \<Rightarrow>
     (case ascii_encode v of Inl e \<Rightarrow> Inl e | Inr vb \<Rightarrow>
     (case encode_headers hs of Inl e \<Rightarrow> Inl e | Inr rest \<Rightarrow> Inr ((nb, vb) # rest))))"

text \<open>The loop that extracts the content length; a later one replaces an earlier one.\<close>

fun find_length :: "(pystr \<times> pystr) list \<Rightarrow> (inst, unit) py" where
  "find_length [] = py_return ()"
| "find_length ((n, v) # hs) = (\<lambda>s. if py_lower n = lit ''content-length''
     then (case py_int v of
        Inl e \<Rightarrow> (Inl e, s) | Inr k \<Rightarrow> find_length hs (s\<lparr>content_length := Some k\<rparr>))
     else find_length hs s)"

definition start_response :: "pystr \<Rightarrow> (pystr \<times> pystr) list \<Rightarrow> exn option \<Rightarrow> (inst, unit) py" where
  "start_response status hs exc_info = (\<lambda>s.
     if response_started s then (Inl (case exc_info of Some e \<Rightarrow> e | None \<Rightarrow> TypeError), s)
     else if response_start s \<noteq> None \<and> exc_info = None then (Inl ValueError, s)
     else (case split_space status of Inl e \<Rightarrow> (Inl e, s) | Inr (code, _) \<Rightarrow>
       (case py_int code of Inl e \<Rightarrow> (Inl e, s) | Inr n \<Rightarrow>
       (case encode_headers hs of Inl e \<Rightarrow> (Inl e, s) | Inr bs \<Rightarrow>
          py_bind (find_length hs)
            (\<lambda>_ t. (Inr (), t\<lparr>response_start := Some \<lparr>st_status = n, st_headers = bs\<rparr>\<rparr>))
            (s\<lparr>content_length := None\<rparr>)))))"

text \<open>
  A WSGI application as it runs: it calls \<open>start_response\<close> (and goes on with the exception that
  raised, if it catches it), yields a chunk, raises, or ends.
\<close>

datatype wsgi =
  End | Fail exn | Chunk bytes wsgi | Start pystr "(pystr \<times> pystr) list" "exn option" "exn option \<Rightarrow> wsgi"

definition ensure_started :: "sending \<Rightarrow> (inst, unit) py" where
  "ensure_started refuse = (\<lambda>s. if response_started s then (Inr (), s)
     else (case response_start s of
        None \<Rightarrow> (Inl AttributeError, s\<lparr>response_started := True\<rparr>)
      | Some st \<Rightarrow> sync_send refuse (ResponseStart st) (s\<lparr>response_started := True\<rparr>)))"

definition close_response :: "sending \<Rightarrow> (inst, unit) py" where
  "close_response refuse = py_bind (ensure_started refuse) (\<lambda>_. sync_send refuse (ResponseBody [] False))"

definition clip :: "int option \<Rightarrow> int \<Rightarrow> bytes \<Rightarrow> bytes" where
  "clip len bytes_sent out = (case len of
     None \<Rightarrow> out
   | Some n \<Rightarrow> if int (length out) > n - bytes_sent then slice_to (n - bytes_sent) out else out)"

primrec serve_output :: "sending \<Rightarrow> wsgi \<Rightarrow> int \<Rightarrow> (inst, unit) py" where
  "serve_output refuse End n = close_response refuse"
| "serve_output refuse (Fail e) n = py_raise e"
| "serve_output refuse (Chunk out rest) n = py_bind (ensure_started refuse) (\<lambda>_ s.
     let out' = clip (content_length s) n out; n' = n + int (length out')
     in py_bind (sync_send refuse (ResponseBody out' True)) (\<lambda>_.
          if content_length s = Some n' then close_response refuse else serve_output refuse rest n') s)"
| "serve_output refuse (Start status hs exc_info k) n = (\<lambda>s. case start_response status hs exc_info s of
     (Inl e, s') \<Rightarrow> serve_output refuse (k (Some e)) n s'
   | (Inr _, s') \<Rightarrow> serve_output refuse (k None) n s')"

definition bad_request :: "sending \<Rightarrow> (inst, unit) py" where
  "bad_request refuse = py_bind
     (sync_send refuse (ResponseStart \<lparr>st_status = 400, st_headers = [(lit ''content-type'', lit ''text/plain'')]\<rparr>))
     (\<lambda>_. sync_send refuse (ResponseBody (lit ''Bad Request: Too many duplicate headers'') False))"

definition run_wsgi_app :: "sending \<Rightarrow> (environ \<Rightarrow> wsgi) \<Rightarrow> scope \<Rightarrow> bytes \<Rightarrow> (inst, unit) py" where
  "run_wsgi_app refuse app sc body = (\<lambda>s. case build_environ (limit s) sc body of
     Inl e \<Rightarrow> if is_ValueError e then bad_request refuse s else (Inl e, s)
   | Inr environ \<Rightarrow> serve_output refuse (app environ) 0 s)"

text \<open>The ASGI entry point: a fresh instance per request. \<open>None\<close>: it waits for a message.\<close>

definition wsgi_call :: "sending \<Rightarrow> nat \<Rightarrow> (environ \<Rightarrow> wsgi) \<Rightarrow> scope \<Rightarrow> request_message list \<Rightarrow>
    ((exn + unit) \<times> inst) option" where
  "wsgi_call refuse n app sc msgs = (if sc_type sc \<noteq> lit ''http'' then Some (Inl ValueError, new_inst n)
     else (case read_body [] msgs of
        None \<Rightarrow> None
      | Some (Inl e) \<Rightarrow> Some (Inl e, new_inst n)
      | Some (Inr body) \<Rightarrow> Some (run_wsgi_app refuse app sc body (new_inst n))))"

end
