(* ===== verification/Wsgi_Properties.thy ===== *)
theory Wsgi_Properties
  imports Wsgi
begin

text \<open>
  Properties of the WSGI adapter: the shape of the response, the content length as a bound, the
  request environment and the header limit, and the error paths.
\<close>

section \<open>The shape of the response\<close>

fun body_bytes :: "message list \<Rightarrow> nat" where
  "body_bytes [] = 0"
| "body_bytes (ResponseStart _ # ms) = body_bytes ms"
| "body_bytes (ResponseBody b _ # ms) = length b + body_bytes ms"

lemma body_bytes_append [simp]: "body_bytes (ms @ ns) = body_bytes ms + body_bytes ns"
  by (induction ms rule: body_bytes.induct) auto

text \<open>A response under way, and a complete one.\<close>

definition under_way :: "message list \<Rightarrow> bool" where
  "under_way ms \<longleftrightarrow> (\<exists>st bs. ms = ResponseStart st # map (\<lambda>b. ResponseBody b True) bs)"

definition complete :: "message list \<Rightarrow> bool" where
  "complete ms \<longleftrightarrow> (\<exists>ns. under_way ns \<and> ms = ns @ [ResponseBody [] False])"

lemma under_way_start [simp]: "under_way [ResponseStart st]"
  unfolding under_way_def by (intro exI [of _ st] exI [of _ "[]"]) simp

lemma under_way_body: "under_way ms \<Longrightarrow> under_way (ms @ [ResponseBody b True])"
  unfolding under_way_def by (metis append_Cons list.simps(8,9) map_append)

text \<open>
  The invariant of the output loop after \<open>n\<close> body bytes: what was sent, and the content length
  as a bound on it once the response has started.
\<close>

definition within :: "inst \<Rightarrow> bool" where
  "within s \<longleftrightarrow> (\<forall>m. response_started s \<and> content_length s = Some m \<and> 0 \<le> m \<longrightarrow> int (body_bytes (sent s)) \<le> m)"

definition serving :: "int \<Rightarrow> inst \<Rightarrow> bool" where
  "serving n s \<longleftrightarrow> n = int (body_bytes (sent s)) \<and> within s \<and>
     (if response_started s then under_way (sent s) else sent s = [])"

definition served :: "exn + unit \<Rightarrow> inst \<Rightarrow> bool" where
  "served r s \<longleftrightarrow> within s \<and> (if r = Inr () then complete (sent s)
     else sent s = [] \<or> under_way (sent s))"

lemma find_length_fields:
  "find_length hs s = (r, t) \<Longrightarrow> sent t = sent s \<and> response_started t = response_started s"
  by (induction hs arbitrary: s rule: find_length.induct)
    (fastforce simp: py_return_def split: if_splits sum.splits)+

lemma start_response_serving:
  assumes "start_response status hs exc s = (r, t)"
  shows "(response_started s \<longrightarrow> t = s) \<and> sent t = sent s \<and> response_started t = response_started s"
  using assms
  by (auto simp: start_response_def py_bind_def split: if_splits sum.splits prod.splits dest: find_length_fields)

lemma ensure_started_serving:
  assumes "serving n s" and "ensure_started refuse s = (r, t)"
  shows "content_length t = content_length s \<and> response_started t \<and>
    (case r of Inl e \<Rightarrow> served r t | Inr _ \<Rightarrow> serving n t)"
  using assms
  by (auto simp: serving_def served_def within_def ensure_started_def sync_send_def
      split: if_splits option.splits)

lemma close_response_served:
  assumes "serving n s" and "close_response refuse s = (r, t)"
  shows "served r t"
proof (cases "ensure_started refuse s")
  case (Pair r1 s1)
  note one = ensure_started_serving [OF assms(1) Pair]
  show ?thesis
  proof (cases r1)
    case (Inl e)
    with one Pair assms(2) show ?thesis by (auto simp: close_response_def py_bind_def)
  next
    case (Inr u)
    with one have s1: "serving n s1" "response_started s1" by simp_all
    then have "under_way (sent s1)" "within s1" by (simp_all add: serving_def)
    then show ?thesis using Inr Pair assms(2)
      by (auto simp: close_response_def py_bind_def sync_send_def served_def complete_def within_def
          split: option.splits)
  qed
qed

lemma clip_within:
  assumes "len = Some m" and "0 \<le> m" and "0 \<le> n" and "n \<le> m"
  shows "n + int (length (clip len n out)) \<le> m"
  using assms by (auto simp: clip_def slice_to_def)

lemma chunk_serving:
  assumes "serving n s" and "response_started s"
    and "sync_send refuse (ResponseBody (clip (content_length s) n out) True) s = (Inr u, t)"
  shows "serving (n + int (length (clip (content_length s) n out))) t"
proof -
  let ?b = "clip (content_length s) n out"
  have t: "t = s\<lparr>sent := sent s @ [ResponseBody ?b True]\<rparr>"
    using assms(3) by (auto simp: sync_send_def split: option.splits)
  have n: "n = int (body_bytes (sent s))" "under_way (sent s)" "within s"
    using assms(1,2) by (simp_all add: serving_def)
  have "within t" unfolding within_def
  proof (intro allI impI)
    fix m assume "response_started t \<and> content_length t = Some m \<and> 0 \<le> m"
    then have "content_length s = Some m" "0 \<le> m" by (simp_all add: t)
    moreover from this n(3) assms(2) have "n \<le> m" by (simp add: within_def n(1))
    ultimately show "int (body_bytes (sent t)) \<le> m"
      using clip_within [of "content_length s" m n out] n(1) by (simp add: t)
  qed
  then show ?thesis using n assms(2) under_way_body by (simp add: serving_def t)
qed

lemma serve_output_served:
  "serving n s \<Longrightarrow> serve_output refuse w n s = (r, t) \<Longrightarrow> served r t"
proof (induction w arbitrary: n s)
  case End
  then show ?case using close_response_served by simp
next
  case (Fail e)
  then show ?case by (auto simp: py_raise_def serving_def served_def split: if_splits)
next
  case (Chunk out w)
  show ?case
  proof (cases "ensure_started refuse s")
    case (Pair r1 s1)
    note one = ensure_started_serving [OF Chunk.prems(1) Pair]
    show ?thesis
    proof (cases r1)
      case (Inl e)
      with one Pair Chunk.prems(2) show ?thesis by (auto simp: py_bind_def)
    next
      case (Inr u)
      with one have s1: "serving n s1" "response_started s1" by simp_all
      let ?b = "clip (content_length s1) n out"
      show ?thesis
      proof (cases "sync_send refuse (ResponseBody ?b True) s1")
        case (Pair r2 s2)
        show ?thesis
        proof (cases r2)
          case (Inl e)
          with Pair have "s2 = s1" by (auto simp: sync_send_def split: option.splits)
          with Inl Pair \<open>ensure_started refuse s = (r1, s1)\<close> \<open>r1 = Inr u\<close> Chunk.prems(2) s1
          show ?thesis by (auto simp: py_bind_def Let_def served_def serving_def)
        next
          case (Inr v)
          with chunk_serving [OF s1] Pair have s2: "serving (n + int (length ?b)) s2" by simp
          have "(if content_length s1 = Some (n + int (length ?b)) then close_response refuse
              else serve_output refuse w (n + int (length ?b))) s2 = (r, t)"
            using Inr Pair \<open>ensure_started refuse s = (r1, s1)\<close> \<open>r1 = Inr u\<close> Chunk.prems(2)
            by (simp add: py_bind_def Let_def)
          then show ?thesis using close_response_served [OF s2] Chunk.IH [OF s2]
            by (simp split: if_splits)
        qed
      qed
    qed
  qed
next
  case (Start status hs exc k)
  obtain r1 s1 where one: "start_response status hs exc s = (r1, s1)" by fastforce
  note same = start_response_serving [OF one]
  have s1: "serving n s1"
  proof (cases "response_started s")
    case True
    with same Start.prems(1) show ?thesis by simp
  next
    case False
    with same Start.prems(1) show ?thesis by (simp add: serving_def within_def)
  qed
  show ?case using Start.IH [OF _ s1] Start.prems(2) one by (auto split: sum.splits)
qed

lemma new_inst_serving: "serving 0 (new_inst n)"
  by (simp add: serving_def within_def new_inst_def)

text \<open>C33: the response keeps the ASGI protocol and the content length. Whatever the WSGI application
  does and however sending fails, a request that runs the application sends nothing, or one start
  message followed by body messages; if it returns, exactly that and one closing message; and never
  more body bytes than a content length that is not negative allows.\<close>

theorem response_is_well_formed:
  assumes "run_wsgi_app refuse app sc body (new_inst n) = (r, t)"
    and "build_environ n sc body = Inr environ"
  shows "(if r = Inr () then complete (sent t) else sent t = [] \<or> under_way (sent t)) \<and>
    (\<forall>m. response_started t \<and> content_length t = Some m \<and> 0 \<le> m \<longrightarrow> int (body_bytes (sent t)) \<le> m)"
proof -
  have "serve_output refuse (app environ) 0 (new_inst n) = (r, t)"
    using assms by (simp add: run_wsgi_app_def new_inst_def)
  from serve_output_served [OF new_inst_serving this] show ?thesis
    by (simp add: served_def within_def)
qed

definition demo_scope :: "(bytes \<times> bytes) list \<Rightarrow> scope" where
  "demo_scope hs = \<lparr>sc_type = lit ''http'', root_path = None, path = lit ''/'', http_method = lit ''GET'',
     query_string = [], http_version = lit ''1.1'', scheme = None, server = NoServer, client = None, headers = hs\<rparr>"

definition demo_wsgi :: "string \<Rightarrow> wsgi" where
  "demo_wsgi len = Start (lit ''200 OK'') [(lit ''Content-Length'', lit len)] None
     (\<lambda>_. Chunk (lit ''abc'') (Chunk (lit ''def'') End))"

definition open_send :: sending where
  "open_send = (\<lambda>ms m. None)"

lemmas wsgi_defs = demo_scope_def demo_wsgi_def open_send_def new_inst_def run_wsgi_app_def sync_send_def
  close_response_def ensure_started_def start_response_def lit_def py_simps clip_def slice_to_def

lemmas environ_defs = build_environ_def utf8_point_def ascii_decode_def latin1_decode_def

lemmas header_defs = ascii_encode_def py_lower_def lower_point_def py_int_def strip_def is_space_def

theorem response_is_well_formed_witness:
  "complete (sent (snd (run_wsgi_app open_send (\<lambda>_. demo_wsgi ''4'') (demo_scope []) [] (new_inst 100))))"
proof -
  obtain e where e: "build_environ 100 (demo_scope []) [] = Inr e"
    by (simp add: demo_scope_def lit_def environ_defs)
  have "fst (run_wsgi_app open_send (\<lambda>_. demo_wsgi ''4'') (demo_scope []) [] (new_inst 100)) = Inr ()"
    using e by (simp add: wsgi_defs header_defs)
  with response_is_well_formed [OF prod.collapse [symmetric] e, of open_send "\<lambda>_. demo_wsgi ''4''"]
  show ?thesis by simp
qed

text \<open>A negative content length makes the adapter cut chunks from the end instead of sending
  nothing: with a declared length of -1, the first chunk loses its last byte and the response does
  not stop.\<close>

theorem negative_content_length_slices:
  "map (\<lambda>m. case m of ResponseBody b _ \<Rightarrow> b | _ \<Rightarrow> [])
     (sent (snd (serve_output open_send (demo_wsgi ''-1'') 0 (new_inst 0)))) =
   [[], lit ''ab'', [], []]"
  by (simp add: wsgi_defs header_defs Let_def)

section \<open>Headers\<close>

definition values_of :: "(bytes \<times> bytes) list \<Rightarrow> pystr \<Rightarrow> pystr list" where
  "values_of hs name = map (latin1_decode \<circ> snd) (filter (\<lambda>h. corrected_name (fst h) = name) hs)"

abbreviation found :: "(pystr, pystr list) dict \<Rightarrow> pystr \<Rightarrow> pystr list" where
  "found acc name \<equiv> (case dict_get acc name of None \<Rightarrow> [] | Some vs \<Rightarrow> vs)"

definition within_limit :: "nat \<Rightarrow> (bytes \<times> bytes) list \<Rightarrow> (pystr, pystr list) dict \<Rightarrow> bool" where
  "within_limit l hs acc \<longleftrightarrow> l = 0 \<or> (\<forall>name. values_of hs name = [] \<or>
     length (found acc name) + length (values_of hs name) \<le> l)"

lemma values_of_Cons [simp]: "values_of ((n, v) # hs) name =
    (if corrected_name n = name then [latin1_decode v] else []) @ values_of hs name"
  by (simp add: values_of_def)

lemma collect_headers_result:
  "if within_limit l hs acc
   then \<exists>acc'. collect_headers l hs acc = Inr acc' \<and> (dict_ok acc \<longrightarrow> dict_ok acc') \<and>
      (\<forall>name. dict_get acc' name = (if values_of hs name = [] then dict_get acc name
         else Some (found acc name @ values_of hs name)))
   else collect_headers l hs acc = Inl ValueError"
proof (induction hs arbitrary: acc)
  case Nil
  then show ?case by (simp add: within_limit_def values_of_def)
next
  case (Cons h hs)
  obtain n v where h: "h = (n, v)" by (cases h)
  let ?c = "corrected_name n"
  let ?acc = "dict_set ?c (found acc ?c @ [latin1_decode v]) acc"
  show ?case
  proof (cases "l \<noteq> 0 \<and> l \<le> length (found acc ?c)")
    case True
    then have "\<not> within_limit l (h # hs) acc"
      unfolding within_limit_def h by (intro notI) (auto dest!: spec [of _ ?c])
    with True show ?thesis by (simp add: h Let_def)
  next
    case False
    have "within_limit l (h # hs) acc \<longleftrightarrow> within_limit l hs ?acc"
    proof (cases "l = 0")
      case False
      have "(values_of (h # hs) name = [] \<or> length (found acc name) + length (values_of (h # hs) name) \<le> l) \<longleftrightarrow>
          (values_of hs name = [] \<or> length (found ?acc name) + length (values_of hs name) \<le> l)" for name
        using False \<open>\<not> (l \<noteq> 0 \<and> l \<le> length (found acc ?c))\<close> by (cases "name = ?c") (auto simp: h)
      then show ?thesis unfolding within_limit_def by simp
    qed (simp add: within_limit_def)
    moreover have "collect_headers l (h # hs) acc = collect_headers l hs ?acc"
      using False by (auto simp: h Let_def)
    ultimately show ?thesis using Cons.IH [of ?acc] by (auto simp: h)
  qed
qed

lemma add_headers_get:
  "dict_ok hs \<Longrightarrow> dict_get (add_headers hs env) name =
     (case dict_get hs name of None \<Rightarrow> dict_get env name | Some vs \<Rightarrow> Some (Str (join_commas vs)))"
proof (induction hs env rule: add_headers.induct)
  case (2 n vs hs env)
  then have "dict_get hs n = None" "dict_ok hs" by (auto simp: dict_ok_def map_of_eq_None_iff)
  with "2.IH" show ?case by (cases "name = n") (auto split: option.split)
qed simp

text \<open>The part of a request that can be decoded, whatever its headers.\<close>

definition decodable :: "scope \<Rightarrow> bool" where
  "decodable sc \<longleftrightarrow> (\<exists>b. utf8_encode (case root_path sc of None \<Rightarrow> [] | Some r \<Rightarrow> r) = Inr b) \<and>
     (\<exists>b. utf8_encode (path sc) = Inr b) \<and> (\<exists>b. ascii_decode (query_string sc) = Inr b) \<and> server sc \<noteq> ServerNone"

lemma build_environ_decodable:
  assumes "decodable sc"
  shows "\<exists>env. (\<forall>l. build_environ l sc body = (case collect_headers l (headers sc) [] of
      Inl e \<Rightarrow> Inl e | Inr hs \<Rightarrow> Inr (add_headers hs env))) \<and>
    set (dict_keys env) \<subseteq> lit ` {''REQUEST_METHOD'', ''SCRIPT_NAME'', ''PATH_INFO'', ''QUERY_STRING'',
      ''SERVER_PROTOCOL'', ''wsgi.version'', ''wsgi.url_scheme'', ''wsgi.input'', ''wsgi.errors'',
      ''wsgi.multithread'', ''wsgi.multiprocess'', ''wsgi.run_once'', ''SERVER_NAME'', ''SERVER_PORT'', ''REMOTE_ADDR''}"
proof -
  from assms obtain rb pb q where "utf8_encode (case root_path sc of None \<Rightarrow> [] | Some r \<Rightarrow> r) = Inr rb"
    "utf8_encode (path sc) = Inr pb" "ascii_decode (query_string sc) = Inr q" "server sc \<noteq> ServerNone"
    by (auto simp: decodable_def)
  then show ?thesis
    by (cases "server sc"; cases "client sc")
      (auto simp: build_environ_def Let_def intro!: exI)
qed

text \<open>C34: headers reach the application joined, and the limit is exact. For a decodable request, the
  environment is refused with \<open>ValueError\<close> exactly when the limit is not 0 and some
  environment name gets more values than the limit; otherwise each header's entry is its values in
  order of arrival, joined by commas.\<close>

theorem headers_joined_up_to_limit:
  assumes "decodable sc"
  shows "(build_environ l sc body = Inl ValueError) = (l \<noteq> 0 \<and> (\<exists>name. l < length (values_of (headers sc) name))) \<and>
    (\<forall>env name. build_environ l sc body = Inr env \<longrightarrow> values_of (headers sc) name \<noteq> [] \<longrightarrow>
       dict_get env name = Some (Str (join_commas (values_of (headers sc) name))))"
proof -
  obtain env where env: "\<And>l. build_environ l sc body = (case collect_headers l (headers sc) [] of
      Inl e \<Rightarrow> Inl e | Inr hs \<Rightarrow> Inr (add_headers hs env))"
    using build_environ_decodable [OF assms, of body] by blast
  have w: "within_limit l (headers sc) [] \<longleftrightarrow> \<not> (l \<noteq> 0 \<and> (\<exists>name. l < length (values_of (headers sc) name)))"
  proof -
    have "values_of (headers sc) name = [] \<or> length (values_of (headers sc) name) \<le> l \<longleftrightarrow>
        length (values_of (headers sc) name) \<le> l" for name by auto
    then show ?thesis by (simp add: within_limit_def not_less)
  qed
  show ?thesis
  proof (cases "within_limit l (headers sc) []")
    case True
    then obtain hs where hs: "collect_headers l (headers sc) [] = Inr hs" "dict_ok hs"
      "\<And>name. dict_get hs name = (if values_of (headers sc) name = [] then None
         else Some (values_of (headers sc) name))"
      using collect_headers_result [of l "headers sc" "[]"] by auto
    then show ?thesis using True w env by (simp add: add_headers_get)
  next
    case False
    then have "collect_headers l (headers sc) [] = Inl ValueError"
      using collect_headers_result [of l "headers sc" "[]"] by simp
    then show ?thesis using False w env by simp
  qed
qed

theorem headers_joined_up_to_limit_witness:
  "build_environ 1 (demo_scope [(lit ''a'', [1]), (lit ''A'', [2])]) [] = Inl ValueError"
proof -
  have "decodable (demo_scope [(lit ''a'', [1]), (lit ''A'', [2])])"
    by (simp add: decodable_def demo_scope_def lit_def environ_defs)
  moreover have "corrected_name (lit ''a'') = lit ''HTTP_A''" "corrected_name (lit ''A'') = lit ''HTTP_A''"
    by (simp_all add: corrected_name_def lit_def latin1_decode_def py_upper_def upper_point_def replace_dashes_def)
  then have "1 < length (values_of (headers (demo_scope [(lit ''a'', [1]), (lit ''A'', [2])])) (lit ''HTTP_A''))"
    by (simp add: demo_scope_def values_of_def)
  ultimately show ?thesis using headers_joined_up_to_limit [of _ 1 "[]"] by (metis one_neq_zero)
qed

section \<open>Paths\<close>

lemma corrected_name_fresh:
  "corrected_name n \<notin> lit ` {''SCRIPT_NAME'', ''PATH_INFO'', ''REQUEST_METHOD'', ''QUERY_STRING''}"
  by (simp add: corrected_name_def lit_def Let_def)

lemma values_of_fresh:
  assumes "name \<in> lit ` {''SCRIPT_NAME'', ''PATH_INFO'', ''REQUEST_METHOD'', ''QUERY_STRING''}"
  shows "values_of hs name = []"
proof -
  have "corrected_name (fst h) \<noteq> name" for h :: "bytes \<times> bytes"
    using corrected_name_fresh [of "fst h"] assms by blast
  then show ?thesis by (simp add: values_of_def)
qed

text \<open>
  In the environment of an accepted request the method and query are those of the scope, and
  \<open>SCRIPT_NAME\<close> and \<open>PATH_INFO\<close> put together are the encoded path when it starts with the encoded
  root path.
\<close>

lemma environ_request_line:
  assumes "build_environ l sc body = Inr env"
  shows "dict_get env (lit ''REQUEST_METHOD'') = Some (Str (http_method sc)) \<and>
    dict_get env (lit ''QUERY_STRING'') = Some (Str (query_string sc)) \<and>
    (\<exists>script info full. utf8_encode (case root_path sc of None \<Rightarrow> [] | Some r \<Rightarrow> r) = Inr script \<and>
       utf8_encode (path sc) = Inr full \<and> dict_get env (lit ''SCRIPT_NAME'') = Some (Str script) \<and>
       dict_get env (lit ''PATH_INFO'') = Some (Str info) \<and>
       (if starts_with full script then script @ info = full else info = full))"
proof -
  have w: "within_limit l (headers sc) []"
    using assms collect_headers_result [of l "headers sc" "[]"]
    by (auto simp: build_environ_def Let_def split: sum.splits server_field.splits if_splits)
  then obtain hs where hs: "collect_headers l (headers sc) [] = Inr hs" "dict_ok hs"
    "\<And>name. dict_get hs name = (if values_of (headers sc) name = [] then None
       else Some (values_of (headers sc) name))"
    using collect_headers_result [of l "headers sc" "[]"] by auto
  have fresh: "dict_get (add_headers hs e) (lit k) = dict_get e (lit k)"
    if "k \<in> {''SCRIPT_NAME'', ''PATH_INFO'', ''REQUEST_METHOD'', ''QUERY_STRING''}" for k e
  proof -
    have "values_of (headers sc) (lit k) = []" using that by (intro values_of_fresh) blast
    then show ?thesis by (simp add: add_headers_get [OF hs(2)] hs(3))
  qed
  obtain script full where enc: "utf8_encode (case root_path sc of None \<Rightarrow> [] | Some r \<Rightarrow> r) = Inr script"
    "utf8_encode (path sc) = Inr full"
    using assms by (auto simp: build_environ_def split: sum.splits)
  obtain e where e: "env = add_headers hs e" "dict_get e (lit ''REQUEST_METHOD'') = Some (Str (http_method sc))"
    "dict_get e (lit ''QUERY_STRING'') = Some (Str (query_string sc))"
    "dict_get e (lit ''SCRIPT_NAME'') = Some (Str script)"
    "dict_get e (lit ''PATH_INFO'') = Some (Str (path_info script full))"
    using assms hs(1) enc
    by (auto simp: build_environ_def Let_def latin1_decode_def ascii_decode_def lit_def
        split: sum.splits server_field.splits if_splits)
  have "if starts_with full script then script @ path_info script full = full else path_info script full = full"
    by (auto simp: path_info_def starts_with_def) (metis append_take_drop_id)
  with e enc show ?thesis by (simp add: fresh)
qed

lemma starts_with_iff: "starts_with s p \<longleftrightarrow> (\<exists>t. s = p @ t)"
  by (auto simp: starts_with_def) (metis append_take_drop_id)

lemma encoded_rest:
  assumes enc: "utf8_encode r = Inr br" "utf8_encode p = Inr bp" and pts: "code_points r" "code_points p"
    and info: "if starts_with bp br then br @ info = bp else info = bp"
  shows "utf8_encode (path_info r p) = Inr info"
proof (cases "starts_with p r")
  case True
  then obtain t where t: "p = r @ t" by (auto simp: starts_with_iff)
  then obtain bt where "utf8_encode t = Inr bt" "bp = br @ bt"
    using enc by (auto simp: utf8_encode_append split: sum.splits)
  then show ?thesis using info by (auto simp: starts_with_iff path_info_def t)
next
  case False
  then have "\<not> starts_with bp br"
    using utf8_encode_prefix [OF enc pts] by (auto simp: starts_with_iff)
  with False info enc(2) show ?thesis by (simp add: path_info_def)
qed

lemma path_info_points: "code_points p \<Longrightarrow> code_points (path_info r p)"
  by (auto simp: path_info_def code_points_def list_all_iff dest: in_set_dropD)

text \<open>C35: an application that decodes the path as PEP 3333 says gets the characters back. The
  environment of an accepted request holds byte strings as \<open>SCRIPT_NAME\<close> and \<open>PATH_INFO\<close>, and
  decoding them as UTF-8 gives the root path, and what follows it in the path (all of the path
  when it does not start with the root path): splitting the encoded path splits the characters.
  Method and query are those of the scope, which no header can replace.\<close>

theorem environ_paths_decode:
  assumes "build_environ l sc body = Inr env"
    and "code_points (path sc)" and "code_points (case root_path sc of None \<Rightarrow> [] | Some r \<Rightarrow> r)"
  shows "dict_get env (lit ''REQUEST_METHOD'') = Some (Str (http_method sc)) \<and>
    dict_get env (lit ''QUERY_STRING'') = Some (Str (query_string sc)) \<and>
    (\<exists>script info. dict_get env (lit ''SCRIPT_NAME'') = Some (Str script) \<and>
       dict_get env (lit ''PATH_INFO'') = Some (Str info) \<and> list_all (\<lambda>c. c < 256) (script @ info) \<and>
       utf8_decode script = Inr (case root_path sc of None \<Rightarrow> [] | Some r \<Rightarrow> r) \<and>
       utf8_decode info = Inr (path_info (case root_path sc of None \<Rightarrow> [] | Some r \<Rightarrow> r) (path sc)))"
proof -
  let ?root = "case root_path sc of None \<Rightarrow> [] | Some r \<Rightarrow> r"
  obtain script info full where env: "utf8_encode ?root = Inr script" "utf8_encode (path sc) = Inr full"
      "dict_get env (lit ''SCRIPT_NAME'') = Some (Str script)" "dict_get env (lit ''PATH_INFO'') = Some (Str info)"
      "if starts_with full script then script @ info = full else info = full"
      "dict_get env (lit ''REQUEST_METHOD'') = Some (Str (http_method sc))"
      "dict_get env (lit ''QUERY_STRING'') = Some (Str (query_string sc))"
    using environ_request_line [OF assms(1)] by blast
  have rest: "utf8_encode (path_info ?root (path sc)) = Inr info"
    by (rule encoded_rest [OF env(1,2) assms(3,2) env(5)])
  note points = path_info_points [OF assms(2), of ?root]
  show ?thesis
    using env(3,4,6,7) utf8_encode_bytes [OF env(1) assms(3)] utf8_encode_bytes [OF rest points]
      utf8_decode_encode [OF env(1) assms(3)] utf8_decode_encode [OF rest points] by simp
qed

theorem environ_paths_decode_witness:
  "\<exists>env info. build_environ 1 ((demo_scope [])\<lparr>root_path := Some [233], path := [233, 8364]\<rparr>) [] = Inr env \<and>
     dict_get env (lit ''PATH_INFO'') = Some (Str info) \<and> utf8_decode info = Inr [8364]"
proof -
  let ?sc = "(demo_scope [])\<lparr>root_path := Some [233], path := [233, 8364]\<rparr>"
  obtain env where "build_environ 1 ?sc [] = Inr env"
    by (simp add: demo_scope_def lit_def environ_defs Let_def)
  with environ_paths_decode [OF this] show ?thesis
    by (auto simp: demo_scope_def code_points_def path_info_def starts_with_def)
qed

section \<open>Error paths\<close>

text \<open>A request whose scope says \<open>server = None\<close>, which ASGI allows, is not answered: the adapter
  raises \<open>TypeError\<close> and sends nothing.\<close>

theorem server_none_is_not_handled:
  assumes "decodable (sc\<lparr>server := NoServer\<rparr>)" and "server sc = ServerNone"
  shows "run_wsgi_app refuse app sc body s = (Inl TypeError, s)"
  using assms by (auto simp: decodable_def run_wsgi_app_def build_environ_def)

theorem server_none_is_not_handled_witness:
  "run_wsgi_app open_send (\<lambda>_. End) ((demo_scope [])\<lparr>server := ServerNone\<rparr>) [] (new_inst 100) =
     (Inl TypeError, new_inst 100)"
  by (rule server_none_is_not_handled) (simp_all add: decodable_def demo_scope_def lit_def environ_defs)

text \<open>Every \<open>ValueError\<close> is reported as too many headers. A request without any header whose query
  string is not ASCII gets status 400 and the text about duplicate headers.\<close>

theorem undecodable_request_blamed_on_headers:
  "sent (snd (run_wsgi_app open_send app ((demo_scope [])\<lparr>query_string := [255]\<rparr>) [] (new_inst 100))) =
     [ResponseStart \<lparr>st_status = 400, st_headers = [(lit ''content-type'', lit ''text/plain'')]\<rparr>,
      ResponseBody (lit ''Bad Request: Too many duplicate headers'') False]"
  by (simp add: wsgi_defs environ_defs bad_request_def)

text \<open>\<open>start_response\<close> by state. Once the response has started it always raises and changes
  nothing: the given exception, or \<open>TypeError\<close> when there is none; before that, a second call
  without \<open>exc_info\<close> raises \<open>ValueError\<close>; a call that succeeds stores the status and makes the
  content length that of its own headers.\<close>

theorem start_response_by_state:
  "(response_started s \<longrightarrow> start_response status hs exc s =
      (Inl (case exc of Some e \<Rightarrow> e | None \<Rightarrow> TypeError), s)) \<and>
   (\<not> response_started s \<and> response_start s \<noteq> None \<and> exc = None \<longrightarrow>
      start_response status hs exc s = (Inl ValueError, s)) \<and>
   (start_response status hs exc s = (Inr (), t) \<longrightarrow> (\<exists>code text n bs. split_space status = Inr (code, text) \<and>
      py_int code = Inr n \<and> encode_headers hs = Inr bs \<and>
      response_start t = Some \<lparr>st_status = n, st_headers = bs\<rparr> \<and>
      ((\<forall>h \<in> set hs. py_lower (fst h) \<noteq> lit ''content-length'') \<longrightarrow> content_length t = None)))"
proof -
  have "find_length hs u = (Inr (), u)" if "\<forall>h \<in> set hs. py_lower (fst h) \<noteq> lit ''content-length''" for u
    using that by (induction hs) (auto simp: py_return_def)
  then show ?thesis
    by (auto simp: start_response_def py_bind_def split: if_splits sum.splits prod.splits)
qed

end
