(* ===== verification/Conformance.thy ===== *)
theory Conformance
  imports Asgi_Types Wsgi_Properties
begin

text \<open>
  The WSGI adapter of \<open>wsgi.py\<close> against the types of \<open>typing.py\<close>: a scope of the declared type
  has every entry that the adapter looks up, events of the declared type give it the body, and
  which of the messages that it sends have the declared type.
\<close>

section \<open>Reading a scope\<close>

text \<open>
  The lookups that \<open>build_environ\<close> and \<open>__call__\<close> make. A missing entry is a \<open>KeyError\<close>; a
  value of another kind than the operation on it needs is \<open>TypeError\<close> here, whatever Python
  raises for it (nothing below speaks about that case).
\<close>

definition bind_sum :: "exn + 'a \<Rightarrow> ('a \<Rightarrow> exn + 'b) \<Rightarrow> exn + 'b" where
  "bind_sum m k = (case m of Inl e \<Rightarrow> Inl e | Inr a \<Rightarrow> k a)"

lemma bind_sum_Inr [simp]: "bind_sum (Inr a) k = k a"
  by (simp add: bind_sum_def)

fun as_str :: "pyval \<Rightarrow> exn + pystr" where
  "as_str (PStr s) = Inr s"
| "as_str _ = Inl TypeError"

fun as_bytes :: "pyval \<Rightarrow> exn + bytes" where
  "as_bytes (PBytes b) = Inr b"
| "as_bytes _ = Inl TypeError"

fun as_port :: "pyval \<Rightarrow> exn + port" where
  "as_port PNone = Inr PortNone"
| "as_port (PInt i) = Inr (PortInt i)"
| "as_port (PBool b) = Inr (PortBool b)"
| "as_port _ = Inl TypeError"

fun as_server :: "pyval \<Rightarrow> exn + server_field" where
  "as_server PNone = Inr ServerNone"
| "as_server (PTuple [h, p]) =
     bind_sum (as_str h) (\<lambda>h. bind_sum (as_port p) (\<lambda>p. Inr (ServerAddr h p)))"
| "as_server _ = Inl TypeError"

fun as_client :: "pyval \<Rightarrow> exn + pystr option" where
  "as_client PNone = Inr None"
| "as_client (PTuple (a # _)) = bind_sum (as_str a) (\<lambda>a. Inr (Some a))"
| "as_client _ = Inl TypeError"

fun as_pair :: "pyval \<Rightarrow> exn + bytes \<times> bytes" where
  "as_pair (PTuple [n, v]) = bind_sum (as_bytes n) (\<lambda>n. bind_sum (as_bytes v) (\<lambda>v. Inr (n, v)))"
| "as_pair _ = Inl TypeError"

fun as_pairs :: "pyval list \<Rightarrow> exn + (bytes \<times> bytes) list" where
  "as_pairs [] = Inr []"
| "as_pairs (v # vs) = bind_sum (as_pair v) (\<lambda>h. bind_sum (as_pairs vs) (\<lambda>hs. Inr (h # hs)))"

definition as_headers :: "pyval \<Rightarrow> exn + (bytes \<times> bytes) list" where
  "as_headers v = (case elements v of None \<Rightarrow> Inl TypeError | Some vs \<Rightarrow> as_pairs vs)"

definition required :: "pyval \<Rightarrow> string \<Rightarrow> (pyval \<Rightarrow> exn + 'a) \<Rightarrow> exn + 'a" where
  "required v k conv = (case key_of v (lit k) of None \<Rightarrow> Inl KeyError | Some x \<Rightarrow> conv x)"

definition defaulted :: "pyval \<Rightarrow> string \<Rightarrow> 'a \<Rightarrow> (pyval \<Rightarrow> exn + 'a) \<Rightarrow> exn + 'a" where
  "defaulted v k d conv = (case key_of v (lit k) of None \<Rightarrow> Inr d | Some x \<Rightarrow> conv x)"

abbreviation if_present :: "(pyval \<Rightarrow> exn + 'a) \<Rightarrow> pyval \<Rightarrow> exn + 'a option" where
  "if_present conv \<equiv> \<lambda>x. bind_sum (conv x) (\<lambda>a. Inr (Some a))"

definition read_scope :: "pyval \<Rightarrow> exn + scope" where
  "read_scope v =
     bind_sum (required v ''type'' as_str) (\<lambda>t.
     bind_sum (defaulted v ''root_path'' None (if_present as_str)) (\<lambda>r.
     bind_sum (required v ''path'' as_str) (\<lambda>p.
     bind_sum (required v ''method'' as_str) (\<lambda>m.
     bind_sum (required v ''query_string'' as_bytes) (\<lambda>q.
     bind_sum (required v ''http_version'' as_str) (\<lambda>hv.
     bind_sum (defaulted v ''scheme'' None (if_present as_str)) (\<lambda>sch.
     bind_sum (defaulted v ''server'' NoServer as_server) (\<lambda>srv.
     bind_sum (defaulted v ''client'' None as_client) (\<lambda>cl.
     bind_sum (defaulted v ''headers'' [] as_headers) (\<lambda>hs.
       Inr \<lparr>sc_type = t, root_path = r, path = p, http_method = m, query_string = q, http_version = hv,
         scheme = sch, server = srv, client = cl, headers = hs\<rparr>))))))))))"

section \<open>Well-typed scopes have what the adapter reads\<close>

lemma as_str_typed: "has_type TStr x \<Longrightarrow> \<exists>s. as_str x = Inr s \<and> code_points s"
  by (cases x) auto

lemma as_bytes_typed: "has_type TBytes x \<Longrightarrow> \<exists>b. as_bytes x = Inr b \<and> is_byte_string b"
  by (cases x) auto

lemma as_port_typed: "has_type (TOptional TInt) x \<Longrightarrow> \<exists>p. as_port x = Inr p"
  by (cases x) auto

lemma positions_ok_Cons: "positions_ok (p # ps) vs \<longleftrightarrow> (\<exists>w ws. vs = w # ws \<and> p w \<and> positions_ok ps ws)"
  by (cases vs) auto

lemma positions_ok_Nil: "positions_ok [] vs \<longleftrightarrow> vs = []"
  by (cases vs) auto

lemmas positions_ok_iff = positions_ok_Cons positions_ok_Nil

lemma as_pair_typed: "has_type (TTuple [TBytes, TBytes]) x \<Longrightarrow>
    \<exists>n v. as_pair x = Inr (n, v) \<and> is_byte_string n \<and> is_byte_string v"
  by (cases x) (auto simp: positions_ok_iff simp del: has_type.simps(4) dest!: as_bytes_typed)

lemma as_pairs_typed: "list_all (has_type (TTuple [TBytes, TBytes])) vs \<Longrightarrow>
    \<exists>hs. as_pairs vs = Inr hs \<and> list_all (\<lambda>h. is_byte_string (fst h) \<and> is_byte_string (snd h)) hs"
proof (induction vs)
  case (Cons v vs)
  then show ?case using as_pair_typed [of v] by auto
qed simp

lemma as_headers_typed: "has_type header_type x \<Longrightarrow>
    \<exists>hs. as_headers x = Inr hs \<and> list_all (\<lambda>h. is_byte_string (fst h) \<and> is_byte_string (snd h)) hs"
  using as_pairs_typed by (auto simp: as_headers_def split: option.splits)

lemma as_server_typed: "has_type (TOptional (TTuple [TStr, TOptional TInt])) x \<Longrightarrow>
    \<exists>srv. as_server x = Inr srv \<and> srv \<noteq> NoServer \<and> (srv = ServerNone \<longleftrightarrow> x = PNone)"
  by (cases x) (auto simp: positions_ok_iff simp del: has_type.simps(3) has_type.simps(5)
      dest!: as_str_typed as_port_typed [unfolded has_type.simps(8)])

lemma as_client_typed: "has_type (TOptional (TTuple [TStr, TInt])) x \<Longrightarrow> \<exists>c. as_client x = Inr c"
  by (cases x) (auto simp: positions_ok_iff simp del: has_type.simps(3) dest!: as_str_typed)

lemma typed_key:
  assumes "has_type (TTyped fs) v" and "Key k t \<in> set fs"
  shows "\<exists>x. key_of v k = Some x \<and> has_type t x"
  using assms by (fastforce split: option.splits)

lemma required_typed:
  assumes "has_type (TTyped fs) v" and "key k t \<in> set fs"
    and "\<And>x. has_type t x \<Longrightarrow> \<exists>a. conv x = Inr a \<and> P a"
  shows "\<exists>a. required v k conv = Inr a \<and> P a"
  using typed_key [OF assms(1,2)] assms(3) by (auto simp: required_def)

lemma defaulted_typed:
  assumes "has_type (TTyped fs) v" and "key k t \<in> set fs"
    and "\<And>x. has_type t x \<Longrightarrow> \<exists>a. conv x = Inr a \<and> P a"
  shows "\<exists>a. defaulted v k d conv = Inr a \<and> P a"
  using typed_key [OF assms(1,2)] assms(3) by (auto simp: defaulted_def)

text \<open>What the adapter has read from a scope of type \<open>HTTPScope\<close>.\<close>

definition scope_ok :: "pyval \<Rightarrow> scope \<Rightarrow> bool" where
  "scope_ok v sc \<longleftrightarrow> sc_type sc = lit ''http'' \<and> code_points (path sc) \<and>
     (case root_path sc of None \<Rightarrow> False | Some r \<Rightarrow> code_points r) \<and> is_byte_string (query_string sc) \<and>
     server sc \<noteq> NoServer \<and> (server sc = ServerNone \<longleftrightarrow> key_of v (lit ''server'') = Some PNone) \<and>
     list_all (\<lambda>h. is_byte_string (fst h) \<and> is_byte_string (snd h)) (headers sc)"

lemma http_scope_read:
  assumes "has_type HTTPScope v"
  shows "\<exists>sc. read_scope v = Inr sc \<and> scope_ok v sc"
proof -
  note typed = assms [unfolded HTTPScope_def]
  note req = required_typed [OF typed] and opt = defaulted_typed [OF typed]
  have "key_of v (lit ''type'') = Some (PStr (lit ''http''))"
    using typed_key [OF typed, of "lit ''type''" "literal ''http''"] by simp
  then have ty: "required v ''type'' as_str = Inr (lit ''http'')" by (simp add: required_def)
  have str: "\<exists>a. if_present as_str x = Inr a \<and> (case a of None \<Rightarrow> False | Some r \<Rightarrow> code_points r)"
    if "has_type TStr x" for x using as_str_typed [OF that] by auto
  obtain r where r: "defaulted v ''root_path'' None (if_present as_str) = Inr r"
    "case r of None \<Rightarrow> False | Some r \<Rightarrow> code_points r"
    using opt [where k = "''root_path''" and t = TStr and conv = "if_present as_str" and d = None
      and P = "case_option False code_points"] str by auto
  obtain p where p: "required v ''path'' as_str = Inr p" "code_points p"
    using req [of "''path''" TStr as_str code_points] as_str_typed by auto
  obtain m where m: "required v ''method'' as_str = Inr m"
    using req [of "''method''" TStr as_str code_points] as_str_typed by auto
  obtain q where q: "required v ''query_string'' as_bytes = Inr q" "is_byte_string q"
    using req [of "''query_string''" TBytes as_bytes is_byte_string] as_bytes_typed by auto
  obtain hv where hv: "required v ''http_version'' as_str = Inr hv"
    using req [of "''http_version''" TStr as_str code_points] as_str_typed by auto
  obtain sch where sch: "defaulted v ''scheme'' None (if_present as_str) = Inr sch"
    using opt [where k = "''scheme''" and t = TStr and conv = "if_present as_str" and d = None
      and P = "\<lambda>_. True"] str by auto
  obtain x where x: "key_of v (lit ''server'') = Some x"
      "has_type (TOptional (TTuple [TStr, TOptional TInt])) x"
    using typed_key [OF typed, of "lit ''server''" "TOptional (TTuple [TStr, TOptional TInt])"]
    by (auto simp del: has_type.simps)
  then obtain srv where srv: "defaulted v ''server'' NoServer as_server = Inr srv" "srv \<noteq> NoServer"
      "srv = ServerNone \<longleftrightarrow> x = PNone"
    using as_server_typed [OF x(2)] by (auto simp: defaulted_def)
  obtain cl where cl: "defaulted v ''client'' None as_client = Inr cl"
    using opt [of "''client''" "TOptional (TTuple [TStr, TInt])" as_client "\<lambda>_. True"] as_client_typed by auto
  obtain hs where hs: "defaulted v ''headers'' [] as_headers = Inr hs"
      "list_all (\<lambda>h. is_byte_string (fst h) \<and> is_byte_string (snd h)) hs"
    using opt [of "''headers''" header_type as_headers
      "list_all (\<lambda>h. is_byte_string (fst h) \<and> is_byte_string (snd h))"] as_headers_typed by auto
  show ?thesis
    by (simp add: read_scope_def scope_ok_def ty r p m q hv sch x(1) srv cl hs)
qed

text \<open>
  \<open>Inl TypeError\<close> of \<open>build_environ\<close> has one cause, a server that is \<open>None\<close>; every other
  failure is a \<open>ValueError\<close>, which \<open>run_wsgi_app\<close> turns into a 400 response.
\<close>

lemma utf8_encode_error: "utf8_encode s = Inl e \<Longrightarrow> is_ValueError e"
  by (induction s arbitrary: e) (auto simp: utf8_point_def split: sum.splits if_splits)

lemma collect_headers_error: "collect_headers l hs acc = Inl e \<Longrightarrow> is_ValueError e"
  by (induction l hs acc rule: collect_headers.induct) (auto simp: Let_def split: if_splits)

lemma build_environ_error:
  "build_environ l sc body = Inl e \<Longrightarrow> is_ValueError e \<or> e = TypeError \<and> server sc = ServerNone"
  by (auto simp: build_environ_def Let_def ascii_decode_def utf8_encode_error collect_headers_error
      split: sum.splits server_field.splits if_splits)

text \<open>C36: well-typed scopes do not get stuck. From every value of type \<open>HTTPScope\<close> the adapter reads
  all it needs, without \<open>KeyError\<close> or a value of the wrong kind, and building the environment
  succeeds or fails with a \<open>ValueError\<close> (a 400 response), except that it raises \<open>TypeError\<close>
  for a declared \<open>server\<close> of \<open>None\<close>; a value of another scope type is refused.\<close>

theorem typed_scope_is_read:
  assumes "has_type Scope v"
  shows "(if key_of v (lit ''type'') = Some (PStr (lit ''http''))
     then \<exists>sc. read_scope v = Inr sc \<and> sc_type sc = lit ''http'' \<and> (\<forall>l body e. build_environ l sc body = Inl e \<longrightarrow>
        is_ValueError e \<or> e = TypeError \<and> key_of v (lit ''server'') = Some PNone)
     else \<forall>refuse n app sc ms. read_scope v = Inr sc \<longrightarrow>
        wsgi_call refuse n app sc ms = Some (Inl ValueError, new_inst n))"
proof (cases "key_of v (lit ''type'') = Some (PStr (lit ''http''))")
  case True
  then have "select_member Scope v = Some HTTPScope"
    by (simp add: select_member_def Scope_def scope_types lit_def)
  with assms tagged_union_dispatch [OF tags_distinct(1) [unfolded Scope_def]] have "has_type HTTPScope v"
    by (simp add: Scope_def)
  from http_scope_read [OF this] show ?thesis
    using True build_environ_error by (fastforce simp: scope_ok_def)
next
  case False
  have "sc_type sc \<noteq> lit ''http''" if "read_scope v = Inr sc" for sc
  proof -
    from that obtain x where x: "key_of v (lit ''type'') = Some x" "as_str x = Inr (sc_type sc)"
      by (auto simp: read_scope_def required_def bind_sum_def split: option.splits sum.splits)
    with False show ?thesis by (cases x) auto
  qed
  with False show ?thesis by (simp add: wsgi_call_def)
qed

definition demo_value :: "pyval \<Rightarrow> pyval" where
  "demo_value srv = PDict (map (\<lambda>(k, x). (PStr (lit k), x)) [(''type'', PStr (lit ''http'')),
     (''asgi'', PDict [(PStr (lit ''spec_version''), PStr (lit ''2.3'')), (PStr (lit ''version''), PStr (lit ''3.0''))]),
     (''http_version'', PStr (lit ''1.1'')), (''method'', PStr (lit ''GET'')), (''scheme'', PStr (lit ''http'')),
     (''path'', PStr [47, 233]), (''raw_path'', PBytes [47]), (''query_string'', PBytes []),
     (''root_path'', PStr []), (''headers'', PList [PTuple [PBytes (lit ''host''), PBytes (lit ''h'')]]),
     (''client'', PNone), (''server'', srv), (''extensions'', PNone)])"

lemma demo_value_typed:
  "srv = PNone \<or> srv = PTuple [PStr (lit ''h''), PInt 80] \<Longrightarrow> has_type Scope (demo_value srv)"
  by (auto simp: Scope_def HTTPScope_def ASGIVersions_def demo_value_def code_points_def is_byte_string_def lit_def)

theorem typed_scope_is_read_witness:
  "\<exists>sc. read_scope (demo_value PNone) = Inr sc \<and>
     key_of (demo_value PNone) (lit ''server'') = Some PNone"
proof -
  have "has_type Scope (demo_value PNone)" by (rule demo_value_typed) simp
  from typed_scope_is_read [OF this] show ?thesis by (auto simp: demo_value_def lit_def)
qed

section \<open>Reading the body\<close>

fun truthy :: "pyval \<Rightarrow> bool" where
  "truthy PNone = False"
| "truthy (PBool b) = b"
| "truthy (PInt i) = (i \<noteq> 0)"
| "truthy (PStr s) = (s \<noteq> [])"
| "truthy (PBytes b) = (b \<noteq> [])"
| "truthy (PTuple vs) = (vs \<noteq> [])"
| "truthy (PList vs) = (vs \<noteq> [])"
| "truthy (PDict d) = (d \<noteq> [])"
| "truthy _ = True"

definition read_message :: "pyval \<Rightarrow> exn + request_message" where
  "read_message v =
     bind_sum (required v ''type'' as_str) (\<lambda>t.
     bind_sum (defaulted v ''body'' None (if_present as_bytes)) (\<lambda>b.
       Inr \<lparr>rm_type = t, rm_body = b,
         more_body = (case key_of v (lit ''more_body'') of None \<Rightarrow> False | Some x \<Rightarrow> truthy x)\<rparr>))"

text \<open>What the declared type of request events promises: the body is the bodies up to the first
  message without more of it.\<close>

fun declared_body :: "pyval list \<Rightarrow> bytes option" where
  "declared_body [] = None"
| "declared_body (v # vs) = (case (key_of v (lit ''body''), key_of v (lit ''more_body'')) of
     (Some (PBytes b), Some (PBool mb)) \<Rightarrow> if mb then map_option ((@) b) (declared_body vs) else Some b
   | _ \<Rightarrow> None)"

lemma request_event_read:
  assumes "has_type HTTPRequestEvent v"
  shows "\<exists>b mb. key_of v (lit ''body'') = Some (PBytes b) \<and> key_of v (lit ''more_body'') = Some (PBool mb) \<and>
    is_byte_string b \<and>
    read_message v = Inr \<lparr>rm_type = lit ''http.request'', rm_body = Some b, more_body = mb\<rparr>"
proof -
  note typed = assms [unfolded HTTPRequestEvent_def]
  have ty: "key_of v (lit ''type'') = Some (PStr (lit ''http.request''))"
    using typed_key [OF typed, of "lit ''type''" "literal ''http.request''"] by simp
  obtain x y where "key_of v (lit ''body'') = Some x" "has_type TBytes x"
      "key_of v (lit ''more_body'') = Some y" "has_type TBool y"
    using typed_key [OF typed, of "lit ''body''" TBytes] typed_key [OF typed, of "lit ''more_body''" TBool] by auto
  then show ?thesis using ty
    by (cases x; cases y) (auto simp: read_message_def required_def defaulted_def)
qed

lemma read_body_declared:
  assumes "list_all (has_type HTTPRequestEvent) vs"
  shows "\<exists>ms. map read_message vs = map Inr ms \<and>
    read_body acc ms = map_option (\<lambda>b. Inr (acc @ b)) (declared_body vs)"
  using assms
proof (induction vs arbitrary: acc)
  case (Cons v vs)
  then obtain b mb where b: "key_of v (lit ''body'') = Some (PBytes b)"
      "key_of v (lit ''more_body'') = Some (PBool mb)"
      "read_message v = Inr \<lparr>rm_type = lit ''http.request'', rm_body = Some b, more_body = mb\<rparr>"
    using request_event_read [of v] by auto
  from Cons.IH [of "acc @ b"] Cons.prems obtain ms where ms: "map read_message vs = map Inr ms"
      "read_body (acc @ b) ms = map_option (\<lambda>c. Inr ((acc @ b) @ c)) (declared_body vs)"
    by auto
  show ?case
    by (intro exI [of _ "\<lparr>rm_type = lit ''http.request'', rm_body = Some b, more_body = mb\<rparr> # ms"])
      (use b ms in \<open>simp add: option.map_comp comp_def\<close>)
qed simp

section \<open>The messages that are sent\<close>

text \<open>
  The dicts that \<open>run_wsgi_app\<close> and \<open>start_response\<close> build: the start message has no
  \<open>trailers\<close>, the closing message has only a type, the body of a 400 response no
  \<open>more_body\<close>.
\<close>

definition entry :: "string \<Rightarrow> pyval \<Rightarrow> pyval \<times> pyval" where
  "entry k x = (PStr (lit k), x)"

definition start_value :: "start \<Rightarrow> pyval" where
  "start_value st = PDict [entry ''type'' (PStr (lit ''http.response.start'')),
     entry ''status'' (PInt (st_status st)),
     entry ''headers'' (PList (map (\<lambda>(n, v). PTuple [PBytes n, PBytes v]) (st_headers st)))]"

fun message_value :: "message \<Rightarrow> pyval" where
  "message_value (ResponseStart st) = start_value st"
| "message_value (ResponseBody b True) = PDict [entry ''type'' (PStr (lit ''http.response.body'')),
     entry ''body'' (PBytes b), entry ''more_body'' (PBool True)]"
| "message_value (ResponseBody [] False) = PDict [entry ''type'' (PStr (lit ''http.response.body''))]"
| "message_value (ResponseBody b False) = PDict [entry ''type'' (PStr (lit ''http.response.body'')),
     entry ''body'' (PBytes b)]"

lemma send_event_by_tag:
  assumes "find (\<lambda>m. tag_of m = Some s) (members ASGISendEvent) = Some t"
    and "key_of v (lit ''type'') = Some (PStr s)"
  shows "has_type ASGISendEvent v \<longleftrightarrow> has_type t v"
  using tagged_union_dispatch [OF tags_distinct(3) [unfolded ASGISendEvent_def], of v] assms
  by (simp add: select_member_def ASGISendEvent_def)

lemma message_value_typed:
  "has_type ASGISendEvent (message_value m) \<longleftrightarrow> (\<exists>b. m = ResponseBody b True \<and> is_byte_string b)"
proof -
  have start: "has_type ASGISendEvent v \<longleftrightarrow> has_type HTTPResponseStartEvent v"
    if "key_of v (lit ''type'') = Some (PStr (lit ''http.response.start''))" for v
    by (rule send_event_by_tag [OF _ that]) (simp add: ASGISendEvent_def send_types lit_def)
  have body: "has_type ASGISendEvent v \<longleftrightarrow> has_type HTTPResponseBodyEvent v"
    if "key_of v (lit ''type'') = Some (PStr (lit ''http.response.body''))" for v
    by (rule send_event_by_tag [OF _ that]) (simp add: ASGISendEvent_def send_types lit_def)
  show ?thesis
    by (cases m rule: message_value.cases)
      (simp_all add: start body start_value_def entry_def HTTPResponseStartEvent_def HTTPResponseBodyEvent_def
        lit_def code_points_def)
qed

text \<open>C37: which messages of a WSGI response have the declared type. Of a request that ran to its end,
  the start message and the closing message are not of type \<open>ASGISendEvent\<close> (they lack
  \<open>trailers\<close>, and \<open>body\<close> and \<open>more_body\<close>), and every message between them is, provided the
  chunks are byte strings; so no complete run of the adapter is a run of an application as the
  types declare it.\<close>

theorem wsgi_messages_against_types:
  assumes "run_wsgi_app refuse app sc body (new_inst n) = (Inr (), t)"
    and "build_environ n sc body = Inr environ"
  shows "\<exists>st bs. sent t = ResponseStart st # map (\<lambda>b. ResponseBody b True) bs @ [ResponseBody [] False] \<and>
    \<not> has_type ASGISendEvent (message_value (ResponseStart st)) \<and>
    (\<forall>b \<in> set bs. has_type ASGISendEvent (message_value (ResponseBody b True)) \<longleftrightarrow> is_byte_string b) \<and>
    \<not> has_type ASGISendEvent (message_value (ResponseBody [] False)) \<and>
    \<not> application_run_ok v (xs @ map (\<lambda>m. Sent (message_value m) PNone) (sent t)) PNone"
proof -
  have "served (Inr ()) t"
    using serve_output_served [OF new_inst_serving] assms by (simp add: run_wsgi_app_def new_inst_def)
  then obtain st bs where s: "sent t = ResponseStart st # map (\<lambda>b. ResponseBody b True) bs @ [ResponseBody [] False]"
    by (auto simp: served_def complete_def under_way_def)
  moreover have "\<not> application_run_ok v (xs @ map (\<lambda>m. Sent (message_value m) PNone) (sent t)) PNone"
    unfolding application_run_ok_def s by (simp add: message_value_typed del: message_value.simps)
  ultimately show ?thesis
    by (intro exI [of _ st] exI [of _ bs]) (simp add: message_value_typed del: message_value.simps)
qed

theorem wsgi_messages_against_types_witness:
  "\<exists>m \<in> set (sent (snd (run_wsgi_app open_send (\<lambda>_. demo_wsgi ''4'') (demo_scope []) [] (new_inst 100)))).
     \<not> has_type ASGISendEvent (message_value m)"
proof -
  let ?run = "run_wsgi_app open_send (\<lambda>_. demo_wsgi ''4'') (demo_scope []) [] (new_inst 100)"
  obtain e where e: "build_environ 100 (demo_scope []) [] = Inr e"
    by (simp add: demo_scope_def lit_def environ_defs)
  have "fst ?run = Inr ()" using e by (simp add: wsgi_defs header_defs)
  then have "?run = (Inr (), snd ?run)" by (metis prod.collapse)
  from wsgi_messages_against_types [OF this e] show ?thesis by fastforce
qed

end
