(* ===== verification/Context_Tasks.thy ===== *)
theory Context_Tasks
  imports Sync_Contexts
begin

text \<open>
  Many contexts at once: tasks that enter and leave managers, start tasks that inherit the context,
  and make calls, in any order. The tasks share the tokens and the dictionary of executors; each has
  its own value of the context variable. (For \<open>AsyncSingleThreadContext\<close> read threads with
  copied contexts for tasks.) An operation runs without interruption, as it does between two awaits,
  and the shutdown that leaving waits for counts as done when it is started. Who gets which executor, and which executors are shut down.
\<close>

section \<open>Tasks that share the managers\<close>

text \<open>
  \<open>variable\<close> is the context variable of each task and \<open>inherited\<close> its value when the task
  started; \<open>opened\<close> are the managers whose blocks a task is in, the innermost first. Every block makes its
  own manager object. \<open>given\<close> records for each call the task, the manager and the executor.
\<close>

record crowd =
  shared :: mgr
  variable :: "nat \<Rightarrow> obj option"
  inherited :: "nat \<Rightarrow> obj option"
  opened :: "nat \<Rightarrow> obj list"
  next_task :: nat
  next_obj :: obj
  given :: "(nat \<times> obj \<times> pool) list"

datatype task_op = Open nat | Close nat | Call nat | Spawn nat

text \<open>A task runs with its own value of the context variable.\<close>

definition as_task :: "nat \<Rightarrow> (mgr, unit) py \<Rightarrow> (crowd, unit) py" where
  "as_task i a c = (case a ((shared c)\<lparr>cur := variable c i\<rparr>) of
     (r, s) \<Rightarrow> (r, c\<lparr>shared := s\<lparr>cur := None\<rparr>, variable := (variable c)(i := cur s)\<rparr>))"

definition open_block :: "manager \<Rightarrow> nat \<Rightarrow> (crowd, unit) py" where
  "open_block m i c = as_task i (mgr_enter m (next_obj c))
     (c\<lparr>opened := (opened c)(i := next_obj c # opened c i), next_obj := Suc (next_obj c)\<rparr>)"

definition close_block :: "manager \<Rightarrow> nat \<Rightarrow> (crowd, unit) py" where
  "close_block m i c = (case opened c i of
     [] \<Rightarrow> (Inr (), c)
   | x # xs \<Rightarrow> as_task i (mgr_exit m x) (c\<lparr>opened := (opened c)(i := xs)\<rparr>))"

definition call_in_task :: "nat \<Rightarrow> (crowd, unit) py" where
  "call_in_task i c = (case variable c i of
     None \<Rightarrow> (Inr (), c)
   | Some x \<Rightarrow> (case context_executor x (shared c) of
       (e, s) \<Rightarrow> (Inr (), c\<lparr>shared := s, given := given c @ [(i, x, e)]\<rparr>)))"

text \<open>A new task gets a copy of the context.\<close>

definition spawn :: "nat \<Rightarrow> crowd \<Rightarrow> crowd" where
  "spawn i c = (let j = next_task c in c\<lparr>next_task := Suc j, variable := (variable c)(j := variable c i),
     inherited := (inherited c)(j := variable c i)\<rparr>)"

fun task_of :: "task_op \<Rightarrow> nat" where
  "task_of (Open i) = i"
| "task_of (Close i) = i"
| "task_of (Call i) = i"
| "task_of (Spawn i) = i"

fun crowd_do :: "manager \<Rightarrow> task_op \<Rightarrow> (crowd, unit) py" where
  "crowd_do m (Open i) = open_block m i"
| "crowd_do m (Close i) = close_block m i"
| "crowd_do m (Call i) = call_in_task i"
| "crowd_do m (Spawn i) = (\<lambda>c. (Inr (), spawn i c))"

definition crowd_start :: "crowd \<Rightarrow> bool" where
  "crowd_start c \<longleftrightarrow> c = \<lparr>shared = new_mgr, variable = (\<lambda>_. None), inherited = (\<lambda>_. None), opened = (\<lambda>_. []),
     next_task = 1, next_obj = 0, given = []\<rparr>"

definition crowd_step :: "manager \<Rightarrow> crowd \<Rightarrow> crowd \<Rightarrow> bool" where
  "crowd_step m c d \<longleftrightarrow> (\<exists>a. task_of a < next_task c \<and> d = snd (crowd_do m a c))"

text \<open>
  A call is late if the manager of its task has been left: the task inherited the context and outlives
  the block.
\<close>

definition is_open :: "crowd \<Rightarrow> obj \<Rightarrow> bool" where
  "is_open c x \<longleftrightarrow> (\<exists>i. x \<in> set (opened c i))"

definition in_time :: "task_op \<Rightarrow> crowd \<Rightarrow> bool" where
  "in_time a c \<longleftrightarrow> (case a of Call i \<Rightarrow> (\<forall>x. variable c i = Some x \<longrightarrow> is_open c x) | _ \<Rightarrow> True)"

definition timely_step :: "manager \<Rightarrow> crowd \<Rightarrow> crowd \<Rightarrow> bool" where
  "timely_step m c d \<longleftrightarrow> (\<exists>a. task_of a < next_task c \<and> in_time a c \<and> d = snd (crowd_do m a c))"

section \<open>Invariants\<close>

text \<open>Entering and leaving, for both kinds of manager.\<close>

lemma mgr_enter_eq: "mgr_enter m x s = (Inr (), if cur s = None then installed x s else s)"
  using single_thread.enter_outermost [of s x] thread_sensitive.enter_outermost [of s x]
    single_thread.enter_inner [of s] thread_sensitive.enter_inner [of s]
  by (cases m; cases "cur s") auto

lemma mgr_exit_eq:
  assumes "\<And>k. token s x = Some k \<Longrightarrow> k \<notin> set (used_tokens s)"
  shows "mgr_exit m x s = (Inr (), case token s x of None \<Rightarrow> s | Some k \<Rightarrow> removed x k s)"
  using assms single_thread.leave_outermost [of s x] thread_sensitive.leave_outermost [of s x]
    single_thread.leave_inner [of s x] thread_sensitive.leave_inner [of s x]
  by (cases m; cases "token s x") auto

text \<open>
  Executors: each is registered for one manager or has been shut down, once; a call got it through the
  manager it belongs to, and while that manager is open it is the registered one.
\<close>

definition pools_ok :: "crowd \<Rightarrow> bool" where
  "pools_ok c \<longleftrightarrow> (let s = shared c in
     distinct (shut s) \<and> {..<next_pool s} = ran (to_executor s) \<union> set (shut s) \<and>
     ran (to_executor s) \<inter> set (shut s) = {} \<and>
     (\<forall>i x e. (i, x, e) \<in> set (given c) \<longrightarrow> e < next_pool s) \<and>
     (\<forall>i j x y e. (i, x, e) \<in> set (given c) \<longrightarrow> (j, y, e) \<in> set (given c) \<longrightarrow> x = y) \<and>
     (\<forall>x e. to_executor s x = Some e \<longrightarrow> (\<exists>i. (i, x, e) \<in> set (given c))) \<and>
     (\<forall>i x e. (i, x, e) \<in> set (given c) \<longrightarrow> is_open c x \<longrightarrow> to_executor s x = Some e))"

text \<open>
  Tasks: one that inherited a manager keeps it, and the blocks it opens change nothing; in any other, the
  outermost block has set the variable.
\<close>

definition task_ok :: "crowd \<Rightarrow> nat \<Rightarrow> bool" where
  "task_ok c i \<longleftrightarrow> (let s = shared c in case inherited c i of
     Some y \<Rightarrow> variable c i = Some y \<and> (\<forall>x \<in> set (opened c i). token s x = None)
   | None \<Rightarrow> if opened c i = [] then variable c i = None
       else (let x = last (opened c i) in variable c i = Some x \<and>
         (\<exists>k. token s x = Some k \<and> k \<notin> set (used_tokens s) \<and> old_value s k = None) \<and>
         (\<forall>y \<in> set (butlast (opened c i)). token s y = None)))"

definition fresh_ok :: "crowd \<Rightarrow> bool" where
  "fresh_ok c \<longleftrightarrow> (let s = shared c in
     (\<forall>i. i \<ge> next_task c \<longrightarrow> opened c i = [] \<and> variable c i = None \<and> inherited c i = None) \<and>
     (\<forall>i. distinct (opened c i)) \<and> (\<forall>i j. i \<noteq> j \<longrightarrow> set (opened c i) \<inter> set (opened c j) = {}) \<and>
     (\<forall>x. x \<ge> next_obj c \<longrightarrow> \<not> is_open c x \<and> token s x = None \<and> to_executor s x = None \<and> (\<forall>i e. (i, x, e) \<notin> set (given c))) \<and>
     (\<forall>i x. variable c i = Some x \<longrightarrow> token s x \<noteq> None) \<and>
     (\<forall>x k. token s x = Some k \<longrightarrow> k < next_token s) \<and> (\<forall>k \<in> set (used_tokens s). k < next_token s) \<and>
     (\<forall>x y k. token s x = Some k \<longrightarrow> token s y = Some k \<longrightarrow> x = y))"

definition crowd_inv :: "crowd \<Rightarrow> bool" where
  "crowd_inv c \<longleftrightarrow> pools_ok c \<and> fresh_ok c \<and> (\<forall>i. task_ok c i)"

lemma task_ok_frame:
  assumes "task_ok c j" and "inherited d j = inherited c j" and "variable d j = variable c j" and "opened d j = opened c j"
    and "\<And>x. x \<in> set (opened c j) \<Longrightarrow> token (shared d) x = token (shared c) x"
    and "\<And>x k. x \<in> set (opened c j) \<Longrightarrow> token (shared c) x = Some k \<Longrightarrow>
      old_value (shared d) k = old_value (shared c) k \<and> (k \<in> set (used_tokens (shared d)) \<longleftrightarrow> k \<in> set (used_tokens (shared c)))"
  shows "task_ok d j"
proof (cases "inherited c j = None \<and> opened c j \<noteq> []")
  case True
  then have l: "last (opened c j) \<in> set (opened c j)" by simp
  from True assms(1) obtain k where k: "variable c j = Some (last (opened c j))"
    "token (shared c) (last (opened c j)) = Some k" "k \<notin> set (used_tokens (shared c))" "old_value (shared c) k = None"
    "\<forall>y \<in> set (butlast (opened c j)). token (shared c) y = None" by (auto simp: task_ok_def Let_def)
  moreover have "token (shared d) y = token (shared c) y" if "y \<in> set (butlast (opened c j))" for y
    using assms(5) in_set_butlastD [OF that] .
  ultimately show ?thesis using True assms(2-4) assms(5) [OF l] assms(6) [OF l k(2)]
    by (simp add: task_ok_def Let_def)
next
  case False
  with assms show ?thesis by (auto simp: task_ok_def Let_def split: option.splits)
qed

lemma crowd_inv_start: "crowd_start c \<Longrightarrow> crowd_inv c"
  by (simp add: crowd_start_def crowd_inv_def pools_ok_def fresh_ok_def task_ok_def new_mgr_def is_open_def Let_def)

section \<open>Opening a block\<close>

lemma open_block_eq:
  "open_block m i c = (Inr (), c\<lparr>opened := (opened c)(i := next_obj c # opened c i), next_obj := Suc (next_obj c),
     shared := (case variable c i of None \<Rightarrow> installed (next_obj c) ((shared c)\<lparr>cur := None\<rparr>) | Some _ \<Rightarrow> shared c)\<lparr>cur := None\<rparr>,
     variable := (variable c)(i := Some (case variable c i of None \<Rightarrow> next_obj c | Some y \<Rightarrow> y))\<rparr>)"
  by (auto simp: open_block_def as_task_def mgr_enter_eq installed_def fun_upd_idem split: option.split)

lemma opened_fields:
  fixes m i c defines "d \<equiv> snd (open_block m i c)"
  shows "to_executor (shared d) = to_executor (shared c)" "shut (shared d) = shut (shared c)"
    "next_pool (shared d) = next_pool (shared c)" "used_tokens (shared d) = used_tokens (shared c)"
    "given d = given c" "is_open d x \<longleftrightarrow> x = next_obj c \<or> is_open c x" "next_task d = next_task c"
    "inherited d = inherited c" "next_obj d = Suc (next_obj c)"
    "opened d = (opened c)(i := next_obj c # opened c i)"
    "variable d = (variable c)(i := Some (case variable c i of None \<Rightarrow> next_obj c | Some y \<Rightarrow> y))"
    "token (shared d) = (case variable c i of None \<Rightarrow> (token (shared c))(next_obj c \<mapsto> next_token (shared c))
       | Some _ \<Rightarrow> token (shared c))"
    "next_token (shared d) = (case variable c i of None \<Rightarrow> Suc (next_token (shared c)) | Some _ \<Rightarrow> next_token (shared c))"
    "old_value (shared d) = (case variable c i of None \<Rightarrow> (old_value (shared c))(next_token (shared c) := None)
       | Some _ \<Rightarrow> old_value (shared c))"
  by (auto simp: d_def open_block_eq installed_def is_open_def split: option.splits if_splits)

lemma open_block_pools:
  assumes "pools_ok c" and "fresh_ok c"
  shows "pools_ok (snd (open_block m i c))"
proof -
  have "\<forall>i e. (i, next_obj c, e) \<notin> set (given c)" using assms(2) by (auto simp: fresh_ok_def Let_def)
  then show ?thesis using assms(1) unfolding pools_ok_def Let_def opened_fields by auto
qed

lemma open_block_fresh:
  assumes "fresh_ok c" and "i < next_task c"
  shows "fresh_ok (snd (open_block m i c))"
  using assms unfolding fresh_ok_def Let_def opened_fields
  apply (intro conjI)
  subgoal by auto
  subgoal by (auto simp: is_open_def)
  subgoal by (auto simp: is_open_def)
  subgoal by (auto split: option.splits)
  subgoal by (auto simp: less_Suc_eq split: option.splits)
  subgoal by (auto simp: less_Suc_eq split: option.splits if_splits)
  subgoal by (auto simp: less_Suc_eq split: option.splits)
  subgoal by (auto split: option.splits if_splits)
  done

lemma open_block_task:
  assumes "fresh_ok c" and "i < next_task c" and "\<And>j. task_ok c j"
  shows "task_ok (snd (open_block m i c)) j"
proof -
  let ?x = "next_obj c"
  have fresh: "\<not> is_open c ?x" "token (shared c) ?x = None" "next_token (shared c) \<notin> set (used_tokens (shared c))"
    "\<And>x k. token (shared c) x = Some k \<Longrightarrow> k < next_token (shared c)"
    using assms(1) by (auto simp: fresh_ok_def Let_def)
  then have other: "x \<noteq> ?x" if "x \<in> set (opened c k)" for x k using that by (auto simp: is_open_def)
  show ?thesis
  proof (cases "j = i \<and> variable c i = None")
    case True
    with assms(3) [of i] have "inherited c i = None" "opened c i = []"
      by (auto simp: task_ok_def Let_def split: option.splits if_splits)
    with True fresh(2,3) show ?thesis by (simp add: task_ok_def Let_def opened_fields)
  next
    case False
    show ?thesis
    proof (cases "j = i")
      case True
      with False obtain y where y: "variable c i = Some y" by auto
      show ?thesis
      proof (cases "inherited c i")
        case None
        with assms(3) [of i] y have "opened c i \<noteq> []" by (auto simp: task_ok_def)
        with None assms(3) [of i] fresh(2) True y show ?thesis
          by (simp add: task_ok_def Let_def opened_fields)
      next
        case (Some z)
        with assms(3) [of i] fresh(2) True y show ?thesis
          by (simp add: task_ok_def Let_def opened_fields)
      qed
    next
      case False
      have "token (shared (snd (open_block m i c))) x = token (shared c) x" if "x \<in> set (opened c j)" for x
        using other [OF that] by (simp add: opened_fields split: option.split)
      moreover have "old_value (shared (snd (open_block m i c))) k = old_value (shared c) k"
        if "token (shared c) x = Some k" for x k
        using fresh(4) [OF that] by (simp add: opened_fields split: option.split)
      ultimately show ?thesis using False
        by (intro task_ok_frame [OF assms(3) [of j]]) (simp_all add: opened_fields)
    qed
  qed
qed

section \<open>Closing a block\<close>

text \<open>An inner block changes nothing that is shared; the outermost one gives up the manager.\<close>

definition inner_closed :: "nat \<Rightarrow> crowd \<Rightarrow> crowd" where
  "inner_closed i c = c\<lparr>opened := (opened c)(i := tl (opened c i)), shared := (shared c)\<lparr>cur := None\<rparr>\<rparr>"

definition outer_closed :: "nat \<Rightarrow> obj \<Rightarrow> token \<Rightarrow> crowd \<Rightarrow> crowd" where
  "outer_closed i x k c = c\<lparr>opened := (opened c)(i := []), variable := (variable c)(i := None),
     shared := (removed x k (shared c))\<lparr>cur := None\<rparr>\<rparr>"

lemma close_block_cases:
  assumes "task_ok c i" and "opened c i = x # xs"
  obtains (inner) "token (shared c) x = None" "xs \<noteq> [] \<or> inherited c i \<noteq> None" "close_block m i c = (Inr (), inner_closed i c)"
  | (outer) k where "xs = []" "inherited c i = None" "token (shared c) x = Some k" "k \<notin> set (used_tokens (shared c))"
      "close_block m i c = (Inr (), outer_closed i x k c)"
proof (cases "xs = [] \<and> inherited c i = None")
  case True
  with assms obtain k where k: "token (shared c) x = Some k" "k \<notin> set (used_tokens (shared c))" "old_value (shared c) k = None"
    by (auto simp: task_ok_def Let_def)
  with mgr_exit_eq [of "(shared c)\<lparr>cur := variable c i\<rparr>" x m] True assms(2)
  have "close_block m i c = (Inr (), outer_closed i x k c)"
    by (simp add: close_block_def as_task_def outer_closed_def removed_def)
  with True k outer show ?thesis by simp
next
  case False
  with assms have none: "token (shared c) x = None"
    by (auto simp: task_ok_def Let_def split: option.splits if_splits)
  with mgr_exit_eq [of "(shared c)\<lparr>cur := variable c i\<rparr>" x m] assms(2)
  have "close_block m i c = (Inr (), inner_closed i c)"
    by (simp add: close_block_def as_task_def inner_closed_def fun_upd_idem)
  with False none inner show ?thesis by simp
qed

lemma is_open_iff:
  assumes "opened d = (opened c)(i := ys)"
  shows "is_open d x \<longleftrightarrow> x \<in> set ys \<or> (\<exists>j. j \<noteq> i \<and> x \<in> set (opened c j))"
  using assms by (auto simp: is_open_def)

lemma closed_fresh:
  assumes "fresh_ok c" and "opened c i = x # xs" and "opened d = (opened c)(i := xs)"
    and "\<And>j y. variable d j = Some y \<Longrightarrow> variable c j = Some y" and "inherited d = inherited c"
    and "token (shared d) = token (shared c)" and "\<And>y. to_executor (shared c) y = None \<Longrightarrow> to_executor (shared d) y = None"
    and "given d = given c" and "next_task d = next_task c" and "next_obj d = next_obj c"
    and "next_token (shared d) = next_token (shared c)"
    and "\<And>k. k \<in> set (used_tokens (shared d)) \<Longrightarrow> k < next_token (shared c)"
  shows "fresh_ok d"
proof -
  note old = assms(1) [unfolded fresh_ok_def Let_def]
  have sub: "set (opened d j) \<subseteq> set (opened c j)" for j using assms(2,3) by auto
  then have still: "is_open d y \<Longrightarrow> is_open c y" for y by (auto simp: is_open_def)
  have distinct: "distinct (opened d j)" for j using old assms(2,3) by (metis distinct.simps(2) fun_upd_apply)
  have apart: "set (opened d j) \<inter> set (opened d l) = {}" if "j \<noteq> l" for j l
    using sub old that by (meson disjoint_iff subsetD)
  have unused: "opened d j = [] \<and> variable d j = None \<and> inherited d j = None" if "next_task c \<le> j" for j
    using old that assms(4) [of j] sub [of j] assms(5) by (metis empty_subsetI not_Some_eq set_empty subset_antisym)
  show ?thesis
    unfolding fresh_ok_def Let_def assms(5,6,8-11)
    apply (intro conjI)
    subgoal using unused assms(5) by simp
    subgoal using distinct by simp
    subgoal using apart by simp
    subgoal using old still assms(7) by metis
    subgoal using old assms(4) by metis
    subgoal using old by blast
    subgoal using assms(12) by simp
    subgoal using old by blast
    done
qed

lemma inner_closed_ok:
  assumes "crowd_inv c" and "opened c i = x # xs" and "xs \<noteq> [] \<or> inherited c i \<noteq> None"
  shows "crowd_inv (inner_closed i c)"
proof -
  let ?d = "inner_closed i c"
  have fields: "token (shared ?d) = token (shared c)" "to_executor (shared ?d) = to_executor (shared c)"
    "shut (shared ?d) = shut (shared c)" "next_pool (shared ?d) = next_pool (shared c)" "given ?d = given c"
    "used_tokens (shared ?d) = used_tokens (shared c)" "old_value (shared ?d) = old_value (shared c)"
    "variable ?d = variable c" "inherited ?d = inherited c" "opened ?d = (opened c)(i := xs)"
    "next_task ?d = next_task c" "next_obj ?d = next_obj c" "next_token (shared ?d) = next_token (shared c)"
    using assms(2) by (simp_all add: inner_closed_def)
  have inv: "pools_ok c" "fresh_ok c" using assms(1) by (simp_all add: crowd_inv_def)
  have "is_open c y" if "is_open ?d y" for y
    using that assms(2) unfolding is_open_iff [OF fields(10)] by (metis is_open_def list.set_intros(2))
  then have "pools_ok ?d" using inv(1) unfolding pools_ok_def Let_def fields by meson
  moreover have "fresh_ok ?d"
    by (rule closed_fresh [OF inv(2) assms(2) fields(10)]) (use inv(2) in \<open>simp_all add: fields fresh_ok_def Let_def\<close>)
  moreover have "task_ok ?d j" for j
  proof (cases "j = i")
    case True
    have "task_ok c i" using assms(1) by (simp add: crowd_inv_def)
    with assms(2,3) True show ?thesis unfolding task_ok_def Let_def fields
      by (auto split: option.splits if_splits)
  next
    case False
    have "task_ok c j" using assms(1) by (simp add: crowd_inv_def)
    then show ?thesis by (rule task_ok_frame) (simp_all add: fields False)
  qed
  ultimately show ?thesis by (simp add: crowd_inv_def)
qed

lemma outer_closed_open:
  assumes "fresh_ok c" and "opened c i = [x]"
  shows "is_open (outer_closed i x k c) y \<longleftrightarrow> is_open c y \<and> y \<noteq> x"
proof -
  have apart: "x \<notin> set (opened c j)" if "j \<noteq> i" for j
    using assms that unfolding fresh_ok_def Let_def by (metis disjoint_iff list.set_intros(1))
  have "opened (outer_closed i x k c) = (opened c)(i := [])" by (simp add: outer_closed_def)
  from is_open_iff [OF this] have "is_open (outer_closed i x k c) y \<longleftrightarrow> (\<exists>j. j \<noteq> i \<and> y \<in> set (opened c j))" by simp
  also have "\<dots> \<longleftrightarrow> is_open c y \<and> y \<noteq> x" unfolding is_open_def
    using apart assms(2) by (metis empty_iff insert_iff list.set(1) list.simps(15))
  finally show ?thesis .
qed

lemma outer_closed_ok:
  assumes "crowd_inv c" and "opened c i = [x]" and "inherited c i = None" and "token (shared c) x = Some k"
  shows "crowd_inv (outer_closed i x k c)"
proof -
  let ?d = "outer_closed i x k c"
  have fields: "token (shared ?d) = token (shared c)" "to_executor (shared ?d) = (to_executor (shared c))(x := None)"
    "shut (shared ?d) = shut (shared c) @ (case to_executor (shared c) x of None \<Rightarrow> [] | Some e \<Rightarrow> [e])"
    "next_pool (shared ?d) = next_pool (shared c)" "given ?d = given c"
    "used_tokens (shared ?d) = k # used_tokens (shared c)" "old_value (shared ?d) = old_value (shared c)"
    "variable ?d = (variable c)(i := None)" "inherited ?d = inherited c" "opened ?d = (opened c)(i := [])"
    "next_task ?d = next_task c" "next_obj ?d = next_obj c" "next_token (shared ?d) = next_token (shared c)"
    by (simp_all add: outer_closed_def removed_def)
  have inv: "pools_ok c" "fresh_ok c" "\<And>j. task_ok c j" using assms(1) by (simp_all add: crowd_inv_def)
  have apart: "x \<notin> set (opened c j)" if "j \<noteq> i" for j
    using inv(2) assms(2) that unfolding fresh_ok_def Let_def by (metis disjoint_iff list.set_intros(1))
  note opens = outer_closed_open [OF inv(2) assms(2), of k]
  have ex: "to_executor (shared c) y = Some e \<Longrightarrow> to_executor (shared c) z = Some e \<Longrightarrow> y = z" for y z e
    using inv(1) unfolding pools_ok_def Let_def by metis
  have "pools_ok ?d"
  proof (cases "to_executor (shared c) x")
    case None
    then have "(to_executor (shared c))(x := None) = to_executor (shared c)" by (simp add: fun_upd_idem)
    with None inv(1) show ?thesis unfolding pools_ok_def Let_def fields opens by simp
  next
    case (Some e)
    have ran: "ran ((to_executor (shared c))(x := None)) = ran (to_executor (shared c)) - {e}"
      using ex Some by (auto simp: ran_def) (metis option.inject)
    have "e \<in> ran (to_executor (shared c))" using Some by (rule ranI)
    with Some inv(1) show ?thesis unfolding pools_ok_def Let_def fields opens ran by auto
  qed
  moreover have "fresh_ok ?d"
    by (rule closed_fresh [OF inv(2) assms(2) fields(10)])
      (use inv(2) assms(4) in \<open>auto simp: fields fresh_ok_def Let_def split: if_splits\<close>)
  moreover have "task_ok ?d j" for j
  proof (cases "j = i")
    case True
    with assms(3) show ?thesis by (simp add: task_ok_def fields)
  next
    case False
    have "token (shared c) y \<noteq> Some k" if "y \<in> set (opened c j)" for y
      using inv(2) assms(4) apart [OF False] that unfolding fresh_ok_def Let_def by metis
    with False show ?thesis by (intro task_ok_frame [OF inv(3) [of j]]) (auto simp: fields)
  qed
  ultimately show ?thesis by (simp add: crowd_inv_def)
qed

section \<open>Calls and new tasks\<close>

lemma variable_known:
  assumes "fresh_ok c" and "variable c i = Some x"
  shows "x < next_obj c" "token (shared c) x \<noteq> None"
  using assms unfolding fresh_ok_def Let_def by (metis not_le_imp_less option.distinct(1))+

lemma call_in_task_ok:
  assumes "crowd_inv c"
  shows "fst (call_in_task i c) = Inr () \<and> crowd_inv (snd (call_in_task i c))"
proof (cases "variable c i")
  case None
  with assms show ?thesis by (simp add: call_in_task_def)
next
  case (Some x)
  obtain e s where es: "context_executor x (shared c) = (e, s)" by fastforce
  let ?d = "c\<lparr>shared := s, given := given c @ [(i, x, e)]\<rparr>"
  have inv: "pools_ok c" "fresh_ok c" "\<And>j. task_ok c j" using assms by (simp_all add: crowd_inv_def)
  have open_d: "is_open (c\<lparr>shared := s', given := g\<rparr>) y \<longleftrightarrow> is_open c y" for s' g y by (simp add: is_open_def)
  have s: "token s = token (shared c)" "used_tokens s = used_tokens (shared c)" "old_value s = old_value (shared c)"
    "next_token s = next_token (shared c)" "shut s = shut (shared c)" "to_executor s = (to_executor (shared c))(x \<mapsto> e)"
    "to_executor (shared c) x = Some e \<and> next_pool s = next_pool (shared c) \<or>
       to_executor (shared c) x = None \<and> e = next_pool (shared c) \<and> next_pool s = Suc e"
    using es by (auto simp: context_executor_def fun_upd_idem split: option.splits)
  have "pools_ok ?d"
  proof (cases "to_executor (shared c) x")
    case None
    with s(7) have e: "e = next_pool (shared c)" "next_pool s = Suc e" by auto
    have old: "d < e" if "d \<in> ran (to_executor (shared c)) \<union> set (shut (shared c)) \<or> (j, y, d) \<in> set (given c)" for j y d
      using inv(1) that e(1) unfolding pools_ok_def Let_def by blast
    have "ran (to_executor s) = insert e (ran (to_executor (shared c)))" using None by (simp add: s(6))
    with None old inv(1) e show ?thesis unfolding pools_ok_def Let_def
      by (auto simp: s(5,6) open_d lessThan_Suc less_Suc_eq)
  next
    case (Some e')
    with s(6,7) have e: "to_executor s = to_executor (shared c)" "next_pool s = next_pool (shared c)"
        "to_executor (shared c) x = Some e" by (auto simp: fun_upd_idem)
    then have "e < next_pool (shared c)" "\<exists>j. (j, x, e) \<in> set (given c)"
      using inv(1) unfolding pools_ok_def Let_def by (metis lessThan_iff ranI UnI1, metis)
    with e inv(1) show ?thesis unfolding pools_ok_def Let_def by (auto simp: s(5) open_d) metis+
  qed
  moreover have "fresh_ok ?d" using inv(2) variable_known [OF inv(2) Some] unfolding fresh_ok_def Let_def
    by (auto simp: s open_d)
  moreover have "task_ok ?d j" for j by (rule task_ok_frame [OF inv(3) [of j]]) (simp_all add: s)
  ultimately show ?thesis using Some es by (simp add: call_in_task_def crowd_inv_def)
qed

lemma spawn_ok:
  assumes "crowd_inv c" and "i < next_task c"
  shows "crowd_inv (spawn i c)"
proof -
  have inv: "pools_ok c" "fresh_ok c" "\<And>j. task_ok c j" using assms by (simp_all add: crowd_inv_def)
  have new: "opened c (next_task c) = []" using inv(2) by (simp add: fresh_ok_def Let_def)
  have opens: "is_open (spawn i c) x \<longleftrightarrow> is_open c x" for x by (simp add: is_open_def spawn_def Let_def)
  have "pools_ok (spawn i c)" using inv(1) unfolding pools_ok_def opens by (simp add: spawn_def Let_def)
  moreover have "fresh_ok (spawn i c)" using inv(2) assms(2) unfolding fresh_ok_def opens
    by (auto simp: spawn_def Let_def)
  moreover have "task_ok (spawn i c) j" for j
  proof (cases "j = next_task c")
    case True
    with new show ?thesis by (simp add: task_ok_def spawn_def Let_def split: option.split)
  next
    case False
    then show ?thesis by (intro task_ok_frame [OF inv(3) [of j]]) (simp_all add: spawn_def Let_def)
  qed
  ultimately show ?thesis by (simp add: crowd_inv_def)
qed

section \<open>Every history\<close>

lemma crowd_do_ok:
  assumes "crowd_inv c" and "task_of a < next_task c"
  shows "fst (crowd_do m a c) = Inr () \<and> crowd_inv (snd (crowd_do m a c))"
proof (cases a)
  case (Open i)
  with assms show ?thesis
    using open_block_pools open_block_fresh open_block_task by (simp add: crowd_inv_def) (simp add: open_block_eq)
next
  case (Close i)
  show ?thesis
  proof (cases "opened c i")
    case Nil
    with Close assms show ?thesis by (simp add: close_block_def)
  next
    case (Cons x xs)
    have "task_ok c i" using assms(1) by (simp add: crowd_inv_def)
    from this Cons show ?thesis
    proof (cases rule: close_block_cases [where m = m])
      case inner
      then show ?thesis using Close inner_closed_ok [OF assms(1) Cons] by simp
    next
      case (outer k)
      then show ?thesis using Close Cons outer_closed_ok [OF assms(1), of i x k] by simp
    qed
  qed
qed (use assms call_in_task_ok spawn_ok in auto)

interpretation crowds: invariant_system "crowd_step m" crowd_inv crowd_start for m
  using crowd_do_ok crowd_inv_start by unfold_locales (auto simp: crowd_step_def)

text \<open>Without late calls only open managers have an executor.\<close>

definition timely_inv :: "crowd \<Rightarrow> bool" where
  "timely_inv c \<longleftrightarrow> crowd_inv c \<and>
     (\<forall>x e. to_executor (shared c) x = Some e \<longrightarrow> is_open c x \<and> token (shared c) x \<noteq> None)"

lemma timely_call:
  assumes "timely_inv c" and "in_time (Call i) c"
  shows "timely_inv (snd (call_in_task i c))"
proof -
  have inv: "crowd_inv c" "fresh_ok c" using assms(1) by (simp_all add: timely_inv_def crowd_inv_def)
  show ?thesis
  proof (cases "variable c i")
    case None
    with assms(1) show ?thesis by (simp add: call_in_task_def)
  next
    case (Some x)
    with assms(2) variable_known [OF inv(2) Some] call_in_task_ok [OF inv(1), of i] assms(1) show ?thesis
      by (auto simp: timely_inv_def call_in_task_def in_time_def is_open_def context_executor_def split: option.splits if_splits)
  qed
qed

lemma timely_close:
  assumes "timely_inv c"
  shows "timely_inv (snd (close_block m i c))"
proof (cases "opened c i")
  case Nil
  with assms show ?thesis by (simp add: close_block_def)
next
  case (Cons y ys)
  have inv: "crowd_inv c" "task_ok c i" "fresh_ok c" using assms by (simp_all add: timely_inv_def crowd_inv_def)
  from inv(2) Cons show ?thesis
  proof (cases rule: close_block_cases [where m = m])
    case inner
    have "opened (inner_closed i c) = (opened c)(i := ys)" using Cons by (simp add: inner_closed_def)
    then have "is_open (inner_closed i c) x" if "is_open c x" "x \<noteq> y" for x
      using that Cons by (metis is_open_def is_open_iff set_ConsD)
    moreover have "token (shared (inner_closed i c)) = token (shared c)"
      "to_executor (shared (inner_closed i c)) = to_executor (shared c)" by (simp_all add: inner_closed_def)
    moreover have "x \<noteq> y" if "to_executor (shared c) x = Some e" for x e
      using that inner(1) assms by (auto simp: timely_inv_def)
    ultimately show ?thesis using inner assms inner_closed_ok [OF inv(1) Cons]
      by (simp add: timely_inv_def)
  next
    case (outer k)
    have "is_open (outer_closed i y k c) x" if "is_open c x" "x \<noteq> y" for x
      using that Cons outer(1) outer_closed_open [OF inv(3), of i y k x] by simp
    moreover have "token (shared (outer_closed i y k c)) = token (shared c)"
      "to_executor (shared (outer_closed i y k c)) = (to_executor (shared c))(y := None)"
      by (simp_all add: outer_closed_def removed_def)
    ultimately show ?thesis using outer Cons assms outer_closed_ok [OF inv(1), of i y k]
      by (auto simp: timely_inv_def split: if_splits)
  qed
qed

lemma timely_inv_step:
  assumes "timely_inv c" and "task_of a < next_task c" and "in_time a c"
  shows "timely_inv (snd (crowd_do m a c))"
proof (cases a)
  case (Open i)
  have "crowd_inv (snd (open_block m i c))"
    using assms(1,2) crowd_do_ok [of c a m] Open by (simp add: timely_inv_def)
  moreover have "to_executor (shared c) (next_obj c) = None"
    using assms(1) by (simp add: timely_inv_def crowd_inv_def fresh_ok_def Let_def)
  ultimately show ?thesis using assms(1) Open by (auto simp: timely_inv_def opened_fields split: option.splits)
next
  case (Spawn i)
  then show ?thesis using assms spawn_ok [of c i] by (auto simp: timely_inv_def spawn_def Let_def is_open_def)
qed (use assms timely_call timely_close in auto)

interpretation timely: invariant_system "timely_step m" timely_inv crowd_start for m
proof
  show "timely_inv c" if "crowd_start c" for c
    using crowd_inv_start [OF that] that by (simp add: timely_inv_def crowd_start_def new_mgr_def)
qed (auto simp: timely_step_def timely_inv_step)

text \<open>C9: contexts do not share threads. However any number of tasks enter and leave managers, start tasks that
  inherit their context, and make calls: entering and leaving never raise; an executor serves the calls of
  one manager only, so calls under different managers run on different threads; all calls under one manager,
  as long as it is open, in whatever task, get the same executor; no call gets an executor that was shut down, and none
  is shut down twice. And if no task makes a call under a manager that has been left already, then once all blocks
  are closed every executor that was made has been shut down, once.\<close>

theorem contexts_do_not_share_threads:
  "(reach crowd_start (crowd_step m) c \<longrightarrow>
     (\<forall>a. task_of a < next_task c \<longrightarrow> fst (crowd_do m a c) = Inr ()) \<and>
     (\<forall>i j x y e. (i, x, e) \<in> set (given c) \<and> (j, y, e) \<in> set (given c) \<longrightarrow> x = y) \<and>
     (\<forall>i j x e d. is_open c x \<and> (i, x, e) \<in> set (given c) \<and> (j, x, d) \<in> set (given c) \<longrightarrow> e = d) \<and>
     (\<forall>x. fst (context_executor x (shared c)) \<notin> set (shut (shared c))) \<and> distinct (shut (shared c))) \<and>
   (reach crowd_start (timely_step m) c \<and> (\<forall>i. opened c i = []) \<longrightarrow>
     distinct (shut (shared c)) \<and> set (shut (shared c)) = {..<next_pool (shared c)})"
proof (intro conjI impI)
  assume "reach crowd_start (crowd_step m) c"
  then have inv: "crowd_inv c" by (rule crowds.invariant)
  then have ok: "pools_ok c" by (simp add: crowd_inv_def)
  show "\<forall>a. task_of a < next_task c \<longrightarrow> fst (crowd_do m a c) = Inr ()" using crowd_do_ok [OF inv] by blast
  show "\<forall>i j x y e. (i, x, e) \<in> set (given c) \<and> (j, y, e) \<in> set (given c) \<longrightarrow> x = y"
    "\<forall>i j x e d. is_open c x \<and> (i, x, e) \<in> set (given c) \<and> (j, x, d) \<in> set (given c) \<longrightarrow> e = d"
    "distinct (shut (shared c))" using ok unfolding pools_ok_def Let_def by (blast, metis option.inject, blast)
  show "\<forall>x. fst (context_executor x (shared c)) \<notin> set (shut (shared c))"
  proof
    fix x show "fst (context_executor x (shared c)) \<notin> set (shut (shared c))"
      using ok unfolding pools_ok_def Let_def
      by (cases "to_executor (shared c) x") (auto simp: context_executor_def dest: ranI)
  qed
next
  assume "reach crowd_start (timely_step m) c \<and> (\<forall>i. opened c i = [])"
  then have "timely_inv c" "\<And>x. \<not> is_open c x" using timely.invariant by (blast, simp add: is_open_def)
  then have "pools_ok c" "ran (to_executor (shared c)) = {}" by (auto simp: timely_inv_def crowd_inv_def ran_def)
  then show "distinct (shut (shared c))" "set (shut (shared c)) = {..<next_pool (shared c)}"
    unfolding pools_ok_def Let_def by simp_all
qed

text \<open>
  Two tasks under contexts of their own, the first with a child that opens a block in the inherited
  context: three calls, two executors, both shut down in the end.
\<close>

definition first_task :: crowd where
  "first_task = \<lparr>shared = new_mgr, variable = (\<lambda>_. None), inherited = (\<lambda>_. None), opened = (\<lambda>_. []),
     next_task = 1, next_obj = 0, given = []\<rparr>"

primrec do_all :: "manager \<Rightarrow> task_op list \<Rightarrow> crowd \<Rightarrow> crowd" where
  "do_all m [] c = c"
| "do_all m (a # as) c = do_all m as (snd (crowd_do m a c))"

primrec all_timely :: "manager \<Rightarrow> task_op list \<Rightarrow> crowd \<Rightarrow> bool" where
  "all_timely m [] c = True"
| "all_timely m (a # as) c = (task_of a < next_task c \<and> in_time a c \<and> all_timely m as (snd (crowd_do m a c)))"

lemma do_all_reach:
  "reach crowd_start (timely_step m) c \<Longrightarrow> all_timely m as c \<Longrightarrow> reach crowd_start (timely_step m) (do_all m as c)"
proof (induction as arbitrary: c)
  case (Cons a as)
  then have "reach crowd_start (timely_step m) (snd (crowd_do m a c))"
    by (intro reach_step [OF Cons.prems(1)]) (auto simp: timely_step_def)
  with Cons show ?case by simp
qed simp

lemma timely_reach: "reach crowd_start (timely_step m) c \<Longrightarrow> reach crowd_start (crowd_step m) c"
  by (induction rule: reach.induct) (auto simp: timely_step_def crowd_step_def intro: reach.intros)

definition demo_tasks :: "task_op list" where
  "demo_tasks = [Spawn 0, Open 0, Open 1, Call 0, Spawn 0, Open 2, Call 1, Call 2, Close 2, Close 0, Close 1]"

lemmas crowd_defs = first_task_def demo_tasks_def spawn_def open_block_eq close_block_def call_in_task_def as_task_def
  context_executor_def installed_def new_mgr_def thread_sensitive_exit_def pop_executor_def var_reset_def join_def
  shutdown_def future_defs

lemma demo_timely: "all_timely ThreadSensitive demo_tasks first_task"
  by (simp add: crowd_defs in_time_def is_open_def Let_def) (intro conjI exI [of _ 0], simp_all)

theorem contexts_do_not_share_threads_witness:
  "given (do_all ThreadSensitive demo_tasks first_task) = [(0, 0, 0), (1, 1, 1), (2, 0, 0)] \<and>
   set (shut (shared (do_all ThreadSensitive demo_tasks first_task))) = {..<2}"
proof -
  let ?c = "do_all ThreadSensitive demo_tasks first_task"
  have "crowd_start first_task" by (simp add: crowd_start_def first_task_def)
  from do_all_reach [OF reach_init [of crowd_start, OF this] demo_timely]
  have "reach crowd_start (timely_step ThreadSensitive) ?c" .
  moreover have "opened ?c i = []" for i by (simp add: crowd_defs Let_def)
  ultimately have "set (shut (shared ?c)) = {..<next_pool (shared ?c)}"
    using contexts_do_not_share_threads by blast
  moreover have "next_pool (shared ?c) = 2" "given ?c = [(0, 0, 0), (1, 1, 1), (2, 0, 0)]"
    by (simp_all add: crowd_defs Let_def)
  ultimately show ?thesis by simp
qed

text \<open>
  A late call leaves an executor behind: the manager has been left, so the call registers a new
  executor, and no block that is closed later shuts it down.
\<close>

definition left_behind :: "obj \<Rightarrow> pool \<Rightarrow> crowd \<Rightarrow> bool" where
  "left_behind x e c \<longleftrightarrow> crowd_inv c \<and> \<not> is_open c x \<and> x < next_obj c \<and> to_executor (shared c) x = Some e"

lemma left_behind_step:
  assumes "left_behind x e c" and "crowd_step m c d"
  shows "left_behind x e d"
proof -
  have c: "crowd_inv c" "\<not> is_open c x" "x < next_obj c" "to_executor (shared c) x = Some e"
    using assms(1) by (simp_all add: left_behind_def)
  obtain a where a: "task_of a < next_task c" "d = snd (crowd_do m a c)" using assms(2) by (auto simp: crowd_step_def)
  have "\<not> is_open d x \<and> x < next_obj d \<and> to_executor (shared d) x = Some e"
  proof (cases a)
    case (Close i)
    show ?thesis
    proof (cases "opened c i")
      case Nil
      with c a Close show ?thesis by (simp add: close_block_def)
    next
      case (Cons y ys)
      have "task_ok c i" "fresh_ok c" using c(1) by (simp_all add: crowd_inv_def)
      have "x \<noteq> y" using c(2) Cons by (metis is_open_def list.set_intros(1))
      from \<open>task_ok c i\<close> Cons show ?thesis
      proof (cases rule: close_block_cases [where m = m])
        case inner
        have "\<not> is_open (inner_closed i c) x" using c(2) Cons
          by (auto simp: is_open_def inner_closed_def split: if_splits) (metis list.set_intros(2))+
        with inner c(3,4) a(2) Close show ?thesis by (simp add: inner_closed_def)
      next
        case (outer k)
        with \<open>x \<noteq> y\<close> c a(2) Close Cons outer_closed_open [OF \<open>fresh_ok c\<close>, of i y k x] show ?thesis
          by (simp add: outer_closed_def removed_def)
      qed
    qed
  next
    case (Call i)
    with a(2) c show ?thesis
      by (auto simp: call_in_task_def is_open_def context_executor_def split: option.splits prod.splits)
  qed (use c a(2) in \<open>auto simp: opened_fields spawn_def Let_def is_open_def\<close>)
  moreover have "crowd_inv d" using crowd_do_ok [OF c(1) a(1)] a(2) by simp
  ultimately show ?thesis by (simp add: left_behind_def)
qed

interpretation leak: stable_predicate "crowd_step m" "left_behind x e" for m x e
  using left_behind_step by unfold_locales

text \<open>Only the weak dictionary can still end such an executor, when the manager object is collected.\<close>

theorem late_call_leaves_its_executor:
  assumes "reach crowd_start (crowd_step m) c" and "variable c i = Some x" and "\<not> is_open c x"
    and "(crowd_step m)\<^sup>*\<^sup>* (snd (call_in_task i c)) d"
  shows "\<exists>e. to_executor (shared d) x = Some e \<and> e \<notin> set (shut (shared d))"
proof -
  have inv: "crowd_inv c" "fresh_ok c" using crowds.invariant [OF assms(1)] by (simp_all add: crowd_inv_def)
  obtain e s where "context_executor x (shared c) = (e, s)" by fastforce
  then have "left_behind x e (snd (call_in_task i c))"
    using assms(2,3) call_in_task_ok [OF inv(1), of i] variable_known [OF inv(2) assms(2)]
    by (auto simp: left_behind_def call_in_task_def is_open_def context_executor_def split: option.splits)
  from leak.stays [OF assms(4) this] have "left_behind x e d" .
  then have "to_executor (shared d) x = Some e" "pools_ok d" by (simp_all add: left_behind_def crowd_inv_def)
  moreover from this(1) have "e \<in> ran (to_executor (shared d))" by (rule ranI)
  ultimately have "e \<notin> set (shut (shared d))" unfolding pools_ok_def Let_def by blast
  moreover note \<open>to_executor (shared d) x = Some e\<close>
  ultimately show ?thesis by blast
qed

theorem late_call_leaves_its_executor_witness:
  "\<exists>e. to_executor (shared (snd (call_in_task 1 (do_all ThreadSensitive [Open 0, Spawn 0, Close 0] first_task)))) 0 = Some e"
proof -
  let ?c = "do_all ThreadSensitive [Open 0, Spawn 0, Close 0] first_task"
  have "crowd_start first_task" by (simp add: crowd_start_def first_task_def)
  moreover have "all_timely ThreadSensitive [Open 0, Spawn 0, Close 0] first_task"
    by (simp add: crowd_defs in_time_def Let_def)
  ultimately have "reach crowd_start (crowd_step ThreadSensitive) ?c"
    by (intro timely_reach do_all_reach reach_init)
  moreover have "variable ?c 1 = Some 0" "\<not> is_open ?c 0" by (simp_all add: crowd_defs is_open_def Let_def)
  ultimately show ?thesis using late_call_leaves_its_executor [OF _ _ _ rtranclp.rtrancl_refl] by blast
qed

end
