(* ===== verification/Wsgi_Bridge.thy ===== *)
theory Wsgi_Bridge
  imports Nested_Contexts Wsgi_Properties
begin

text \<open>
  The WSGI adapter on top of the bridge: \<open>run_wsgi_app\<close> is awaited through \<open>sync_to_async\<close>, and
  every message of the response goes back to the loop through \<open>AsyncToSync(send)\<close>. The adapter
  becomes a program of nested calls; its runs are compared with the theory Wsgi, in which a
  message is just handed over.
\<close>

section \<open>The adapter as a program of nested calls\<close>

text \<open>
  What the server's \<open>send\<close> does with a message is a parameter: asynchronous code, which may call
  synchronous code again. An instance is read as in the theory Wsgi: \<open>sent\<close> lists what has been sent.
\<close>

type_synonym sender = "message \<Rightarrow> async_code"

definition send_code :: "sender \<Rightarrow> message \<Rightarrow> sync_code" where
  "send_code put m = AsyncToSync False (put m)"








section \<open>Handing over messages one after the other\<close>

text \<open>
  \<open>handle m\<close> is what happens for a message, as a computation on some state. \<open>deliver\<close> handles a list of
  messages in turn. Seen from the theory Wsgi, the sending side refuses a message if handling it, after
  the messages sent before, raises.
\<close>

type_synonym 'n handler = "message \<Rightarrow> 'n \<Rightarrow> (exn + event list) \<times> 'n"

definition deliver :: "'n handler \<Rightarrow> message list \<Rightarrow> 'n \<Rightarrow> (exn + event list) \<times> 'n" where
  "deliver handle ms = foldr (\<lambda>m. plain_turn (handle m)) ms (\<lambda>N. (Inr [], N))"


lemma deliver_Nil [simp]: "deliver handle [] N = (Inr [], N)"
  by (simp add: deliver_def)

lemma deliver_Cons [simp]: "deliver handle (m # ms) = plain_turn (handle m) (deliver handle ms)"
  by (simp add: deliver_def)







section \<open>The program sends what the adapter sends\<close>

text \<open>In the sequential reading, handling a message is what \<open>send\<close> does with it, for a caller on \<open>t\<close>.\<close>

definition sends :: "sender \<Rightarrow> host \<Rightarrow> nat \<Rightarrow> loop \<Rightarrow> tid \<Rightarrow> exn option \<Rightarrow> names handler" where
  "sends put g d l t exc m = plain_async (put m) g (Suc d) l (Some t) exc"

lemma send_code_plain [simp]:
  "plain_sync (send_code put m) g d (Some l) t exc = sends put g d l t exc m"
  by (simp add: send_code_def sends_def)



















end
