(* ===== verification/Spec2Isabelle.thy ===== *)
theory Spec2Isabelle
  imports Call_System Nested_Contexts Sync_Cancellation Decorators Critical_Refinement Compatibility
    Timeout Server_Checker Server_Messages Testing_Histories Conformance Context_Tasks Wsgi_Bridge
begin

text \<open>
  A verification library for \<^bold>\<open>asgiref\<close> (the sources under \<open>src/asgiref/\<close>): the bridge
  between synchronous and asynchronous Python, and the ASGI helpers built on it.

  \<^bold>\<open>How the parts work together.\<close> \<open>AsyncToSync\<close> (\<open>sync.py\<close>) lets a synchronous thread run an
  awaitable: it pushes a \<open>CurrentThreadExecutor\<close> (\<open>current_thread_executor.py\<close>) into the
  \<open>Local\<close> \<open>executors\<close> (\<open>local.py\<close>), sends the awaitable, wrapped by \<open>main_wrap\<close>, to a loop
  in another thread, and runs the executor's work items until the result is there.
  \<open>SyncToAsync\<close> is the way back: awaited inside a loop it chooses an executor, and finds the
  calling thread's one through \<open>executors\<close>. Both copy context variables across threads with
  \<open>_restore_context\<close>, which re-homes the storage of every \<open>Local\<close>. The rest of the package
  uses these: \<open>timeout.py\<close>, \<open>testing.py\<close>, \<open>server.py\<close>, \<open>wsgi.py\<close> and \<open>compatibility.py\<close>.

  \<^bold>\<open>Theories and the code they model.\<close>

  \<^item> Prelude: exceptions as values, computations \<open>('s, 'a) py\<close> that thread a state and may raise
    (the state survives the exception), insertion-ordered dictionaries, reachability, and three
    interfaces as locales: \<open>stable_predicate\<close>, \<open>invariant_system\<close> and \<open>attribute_store\<close>.
  \<^item> Futures: the life cycle of \<open>concurrent.futures.Future\<close>, as the package uses it.
  \<^item> Thread_Executor, Executor_Concurrency, Executor_Invariants, Executor_Contract:
    \<open>current_thread_executor.py\<close>. First each locked region as a function on one executor
    (\<open>offer\<close>, \<open>next_round\<close>, \<open>mark_done\<close>) with the sequential \<open>submit\<close> and run loop; then a
    transition system in which any number of threads submit, run and resolve, one locked region
    per step; its inductive invariants; and what clients rely on: no lost wake-up, every accepted
    item runs once and in order, nothing accepted is dropped, submissions reach the closest running
    executor, and the interleaved submission refines the sequential walk.
  \<^item> Local_Storage, Local_Critical: \<open>local.py\<close>. Dictionaries live in an explicit memory, so that
    copy on write is a theorem. \<open>Local\<close> in context mode and \<open>_CVar\<close> are both shown to be
    attribute stores; the thread-critical mode chooses between a thread-local and a \<open>_CVar\<close>.
  \<^item> Context_Restore: \<open>_restore_context\<close> and what it does to every variable. Equality of user
    values is a parameter \<open>veq\<close>, since user classes define their own.
  \<^item> Local_Refinement: any number of \<open>Local\<close> objects in any number of contexts, with context
    copies and \<open>_restore_context\<close>, refine a machine of private attribute maps with owners.
  \<^item> Critical_Refinement: the same for any number of thread-critical \<open>Local\<close>s in any number of threads, inside
    and outside a loop: they refine maps that each belong to one thread, and what a thread reads does
    not depend on what the others do.
  \<^item> Sync_Contexts: \<open>AsyncSingleThreadContext\<close>, \<open>ThreadSensitiveContext\<close> and the executor they
    hand out. The contract of both is the locale \<open>reentrant_context\<close>, in which nested blocks are
    analysed once.
  \<^item> Async_To_Sync, Async_Properties: \<open>AsyncToSync.__call__\<close> as a function on the calling thread
    (\<open>process\<close>) and on what the call meets outside (\<open>call_env\<close>: loops, worker threads, the
    awaitable). \<open>main_wrap\<close> is split into the steps the waiting thread can observe, and their
    interleaving with that thread is a transition system. A call that never returns is \<open>None\<close>.
  \<^item> Sync_To_Async, Sync_Properties: \<open>SyncToAsync\<close>: construction, executor choice
    (\<open>select_executor\<close>), the worker thread (\<open>thread_handler\<close>, \<open>run_child\<close>), cancellation
    (\<open>after_cancel\<close>) and the \<open>finally\<close> block (\<open>give_back\<close>).
  \<^item> Nested_Calls, Nested_Refinement: programs in which synchronous and asynchronous code call each other to any
    depth, with the models of both calls at every crossing. Their runs refine a sequential
    reading in which all blocks share one namespace and each block is assigned a thread; in
    particular no crossing waits for ever. New loops are numbered by the depth of nesting, so those
    of one depth, which run one after the other, are not told apart; the default pool
    has a worker for each depth, executors are numbered along the stack of calls, at most a
    \<open>ThreadSensitiveContext\<close> is active, around the whole program, and nothing is cancelled.
  \<^item> Nested_Contexts: a task that runs such a program under \<open>ThreadSensitiveContext\<close>: its
    thread-sensitive code has one worker of its own, and nothing is left of it afterwards.
  \<^item> Context_Tasks: any number of tasks that enter and leave such contexts, inherit them and make calls, in any
    order: who gets which executor, and which are shut down. An operation of the package runs without
    interruption, and the join of \<open>__aexit__\<close> counts as done when it starts.
  \<^item> Call_System: an \<open>AsyncToSync\<close> call as the product of the hand-over of \<open>main_wrap\<close> with the
    threads of Executor_Concurrency; both share the step that resolves the future of the runner.
    What holds when the call has returned, and exactly when it can return.
  \<^item> Sync_Cancellation: the cancellation of a \<open>SyncToAsync\<close> call interleaved with its worker and
    with the nested tasks that \<open>main_wrap\<close> registers in \<open>task_context\<close>; it refines
    \<open>after_cancel\<close>.
  \<^item> Decorators: the wrappers as callable objects: constructors, argument binding, \<open>__get__\<close>,
    the decorator forms and the coroutine markers.
  \<^item> Timeout: \<open>timeout.py\<close> with the callbacks it leaves in the loop.
  \<^item> Compatibility: \<open>compatibility.py\<close>.
  \<^item> Server, Server_Properties: \<open>StatelessServer\<close>: the pool of instances, eviction, one pass of the
    checker, the end of the main loop; histories of these operations as a transition system.
  \<^item> Server_Checker: the checker while its exception handler is suspended and the pool changes
    under its snapshot: when that is safe, and how it goes wrong.
  \<^item> Server_Messages: the server with its applications as interaction trees: which queue, task and scope
    a message posted for a scope id, and one sent by an application, belong to.
  \<^item> Testing: \<open>ApplicationCommunicator\<close>; what the application does while an operation waits is a
    parameter.
  \<^item> Testing_Histories: a communicator together with its application, an interaction tree; what
    the tester receives in any interleaving is what the application puts out for what was sent.
  \<^item> Strings: Python text as lists of code points, bytes as lists of numbers, and the codecs, with
    UTF-8 decoding back what was encoded.
  \<^item> Wsgi, Wsgi_Properties: \<open>wsgi.py\<close>. \<open>int()\<close>, slicing and the header tables are written
    out. A WSGI application is an interaction tree.
  \<^item> Wsgi_Bridge: the adapter as a program of nested calls: \<open>run_wsgi_app\<close> on a worker, every message
    back through \<open>AsyncToSync(send)\<close>. It ends as the adapter of the theory Wsgi does, in which
    messages are just handed over.
  \<^item> Asgi_Types: \<open>typing.py\<close>. Python values, the type expressions the file uses, and a checker
    \<open>has_type\<close>; every \<open>TypedDict\<close> and union is a value of type \<open>ty\<close>.
  \<^item> Conformance: the WSGI adapter against these types: what it looks up in a scope of the declared
    type, and which of the messages it sends have the declared type.

  This theory joins \<open>AsyncToSync\<close>, \<open>SyncToAsync\<close> and \<open>CurrentThreadExecutor\<close>: where a function
  submitted from inside an awaitable ends up.

  \<^bold>\<open>Termination and bounds.\<close> The walk of \<open>submit\<close> is a \<open>partial_function\<close>; it is proved to return
  on every store the program can build, because an executor is created after the one it refers to.
  \<open>drain\<close> takes as fuel a bound on the number of queued items and is proved to need no more. The
  eviction loop of the server terminates because each round removes an instance or raises.
  \<open>main_wrap\<close> consists of four steps, so four iterations of \<open>wrap_block\<close> run it to its end.

  \<^bold>\<open>What lies outside.\<close> Event loops, thread pools, awaitables, work functions, WSGI and ASGI
  applications and the sending side are parameters. Not modelled: the overloads and generic
  parameters of \<open>typing.py\<close> and \<open>sync.py\<close>, the attributes that \<open>update_wrapper\<close> copies,
  tracebacks, log texts and warnings, weak references beyond the dictionaries they key, and the
  spooling of a request body to disk.
\<close>

section \<open>From async to the calling thread\<close>

text \<open>
  The two sides of a call meet in the store of executors: \<open>AsyncToSync\<close> creates an executor on
  top of the current one, and \<open>SyncToAsync\<close> submits to the one it finds. \<open>store_ok\<close> relates
  a calling thread to a store: the stack is well founded, fresh numbers are unused, and the
  current executor exists.
\<close>

definition create_executor :: "process \<Rightarrow> 'j store \<Rightarrow> 'j store" where
  "create_executor s st = st(next_exec s \<mapsto> new_executor (me s)
     (case current_of (me s) (pframe s) of VExecutor d \<Rightarrow> Some d | _ \<Rightarrow> None))"

definition store_ok :: "process \<Rightarrow> 'j store \<Rightarrow> bool" where
  "store_ok s st \<longleftrightarrow> wf_store st \<and> (\<forall>e. st e \<noteq> None \<longrightarrow> e < next_exec s) \<and>
     (\<forall>d. current_of (me s) (pframe s) = VExecutor d \<longrightarrow> st d \<noteq> None)"

lemma create_executor_ok:
  assumes "store_ok s st"
  shows "store_ok (pushed s) (create_executor s st)"
proof -
  have "next_exec (pushed s) = Suc (next_exec s)" by (simp add: push_executor_def Let_def)
  moreover have "wf_store (create_executor s st)" unfolding create_executor_def
    using assms by (intro wf_store_create) (auto simp: store_ok_def split: val.splits)
  ultimately show ?thesis using assms
    by (auto simp: store_ok_def create_executor_def less_SucI)
qed

text \<open>The stack of enclosing calls: empty, or the stack of the current executor.\<close>

definition enclosing :: "process \<Rightarrow> 'j store \<Rightarrow> eid list \<Rightarrow> bool" where
  "enclosing s st es \<longleftrightarrow> (case current_of (me s) (pframe s) of VExecutor d \<Rightarrow> stack st d es | _ \<Rightarrow> es = [])"

lemma enclosing_exists:
  assumes "store_ok s st"
  shows "\<exists>es. enclosing s st es \<and> set es \<subseteq> dom st"
proof (cases "\<exists>d. current_of (me s) (pframe s) = VExecutor d")
  case True
  then obtain d where d: "current_of (me s) (pframe s) = VExecutor d" ..
  with assms obtain x where "wf_store st" "st d = Some x" by (auto simp: store_ok_def)
  from stack_exists [OF this] obtain es where "stack st d es" ..
  with stack_present [OF this] d show ?thesis by (auto simp: enclosing_def)
next
  case False
  then have "enclosing s st []"
    by (cases "current_of (me s) (pframe s)") (auto simp: enclosing_def)
  then show ?thesis by (intro exI [of _ "[]"]) simp
qed

lemma stack_create:
  assumes "store_ok s st" and "enclosing s st es"
  shows "stack (create_executor s st) (next_exec s) (next_exec s # es)"
proof -
  have "st (next_exec s) = None" using assms(1) by (auto simp: store_ok_def)
  then have le: "store_le st (create_executor s st)"
    unfolding create_executor_def by (rule store_le_fresh)
  show ?thesis
  proof (cases "\<exists>d. current_of (me s) (pframe s) = VExecutor d")
    case True
    then obtain d where d: "current_of (me s) (pframe s) = VExecutor d" ..
    with assms(2) have "stack (create_executor s st) d es"
      by (intro store_le_stack [OF _ le]) (simp add: enclosing_def)
    moreover have "create_executor s st (next_exec s) = Some (new_executor (me s) (Some d))"
      "old_executor (new_executor (me s) (Some d) :: 'a executor) = Some d"
      by (simp_all add: create_executor_def new_executor_def d)
    ultimately show ?thesis using stack_below by fast
  next
    case False
    with assms(2) have "es = []" by (simp add: enclosing_def split: val.splits)
    with False show ?thesis
      by (auto simp: create_executor_def new_executor_def split: val.splits intro!: stack_top)
  qed
qed

lemma submit_stack:
  assumes "stack st e es" and "st e = Some x" and "t \<noteq> work_thread x"
  shows "submit st t e j = Some (case find (live st) es of
      None \<Rightarrow> Inl RuntimeError | Some d \<Rightarrow> Inr (enqueue j d st))"
  using assms submit_walk_stack [OF assms(1)] by (simp add: submit_def)

text \<open>C19: thread-sensitive functions reach the calling thread, or the closest one that still waits. In
  the awaitable of a call, a thread-sensitive \<open>sync_to_async\<close> picks the executor that the call
  created, and a submission from another thread is queued there while the call waits; once the
  call's future is resolved (a task that outlives the call), it is queued at the closest enclosing
  call whose executor still runs, and refused with \<open>RuntimeError\<close> if there is none.\<close>

theorem function_reaches_calling_thread:
  assumes "store_ok s st" and "reflp veq" and "\<And>v e. veq v (VExecutor e) \<Longrightarrow> v = VExecutor e"
    and "\<forall>a. dict_ok (dicts (mem (pframe s)) a)"
    and "movable (ctx (pframe s))" and "dict_ok (ctx (pframe s))"
    and "loop_thread k = loop_tid env s" and "frame k = begins veq env s" and "thread_sensitive self"
    and "t \<noteq> me s"
  shows "\<exists>e x es. select_executor self k = (Inr (OnCurrent e), k) \<and> create_executor s st e = Some x \<and>
    submit (create_executor s st) t e j = Some (Inr (enqueue j e (create_executor s st))) \<and>
    enclosing s st es \<and>
    submit ((create_executor s st)(e \<mapsto> mark_done x)) t e j = Some (case find (live st) es of
        None \<Rightarrow> Inl RuntimeError
      | Some d \<Rightarrow> Inr (enqueue j d ((create_executor s st)(e \<mapsto> mark_done x))))"
proof -
  let ?e = "next_exec s" and ?st = "create_executor s st"
  obtain x where x: "?st ?e = Some x" "work_thread x = me s" "\<not> broken x"
    by (simp add: create_executor_def new_executor_def)
  let ?st' = "?st(?e \<mapsto> mark_done x)"
  have sel: "select_executor self k = (Inr (OnCurrent ?e), k)"
    using begins_with_own_executor [OF assms(2-6), of env] assms(7-9)
    by (simp add: select_executor_def parent_executor_def)
  obtain es where es: "enclosing s st es" "set es \<subseteq> dom st" using enclosing_exists [OF assms(1)] by blast
  have stack: "stack ?st ?e (?e # es)" by (rule stack_create [OF assms(1) es(1)])
  have "store_le ?st ?st'" using x(1) by (rule store_le_upd) (simp_all add: mark_done_def)
  then have stack': "stack ?st' ?e (?e # es)" by (rule store_le_stack [OF stack])
  have "submit ?st t ?e j = Some (Inr (enqueue j ?e ?st))"
    using submit_stack [OF stack x(1), of t j] x assms(10) by simp
  moreover have "find (live ?st') (?e # es) = find (live st) es"
  proof -
    have "d \<noteq> ?e" if "d \<in> set es" for d using that es(2) assms(1) by (auto simp: store_ok_def)
    then have "live ?st' d = live st d" if "d \<in> set es" for d
      using that by (auto simp: live_def create_executor_def)
    then have "find (live ?st') es = find (live st) es" by (auto intro: find_cong)
    moreover have "\<not> live ?st' ?e" by (simp add: live_def mark_done_def)
    ultimately show ?thesis by simp
  qed
  then have "submit ?st' t ?e j = Some (case find (live st) es of
        None \<Rightarrow> Inl RuntimeError | Some d \<Rightarrow> Inr (enqueue j d ?st'))"
    using submit_stack [OF stack', of "mark_done x" t j] x(2) assms(10) by (simp add: mark_done_def)
  ultimately show ?thesis using sel x(1) es(1) by blast
qed

theorem function_reaches_calling_thread_witness:
  "\<exists>e x. create_executor (demo_call [] (\<lambda>_. [])) (\<lambda>_. None :: nat executor option) e = Some x \<and>
     submit (create_executor (demo_call [] (\<lambda>_. [])) (\<lambda>_. None)) 4 e (7 :: nat) =
       Some (Inr (enqueue 7 e (create_executor (demo_call [] (\<lambda>_. [])) (\<lambda>_. None))))"
proof -
  let ?s = "demo_call [] (\<lambda>_. [])" and ?env = "demo_env True"
  let ?k = "\<lparr>loop_thread = loop_tid ?env ?s, this_loop = 6, frame = begins (=) ?env ?s,
      loop_executors = (\<lambda>_. None), pools = new_mgr\<rparr>"
  have "store_ok ?s (\<lambda>_. None :: nat executor option)"
    by (simp add: store_ok_def demo_call_def current_of_def local_look_data)
  moreover have "reflp ((=) :: val \<Rightarrow> val \<Rightarrow> bool)" by (simp add: reflp_def)
  moreover have "\<forall>a. dict_ok (dicts (mem (pframe ?s)) a)" "movable (ctx (pframe ?s))" "dict_ok (ctx (pframe ?s))"
    "4 \<noteq> me ?s"
    by (simp_all add: demo_call_def movable_def)
  ultimately show ?thesis
    using function_reaches_calling_thread [of ?s "\<lambda>_. None" "(=)" ?k ?env "demo_sync True" 4 7]
    by (simp add: demo_sync_def) blast
qed

end
